theory Spec2Isabelle
  imports Complex_Main
begin

section \<open>Python values, exceptions and comparisons\<close>

text \<open>
  The builders of \<^verbatim>\<open>streamable/_stream.py\<close> and \<^verbatim>\<open>kioss/_pipe.py\<close> receive
  arbitrary Python objects (the annotations are not enforced), so the arguments they
  validate are modelled by a small universe of dynamically typed values. A finite float
  is the rational it denotes; Python compares an \<^verbatim>\<open>int\<close> with a \<^verbatim>\<open>float\<close> by exact
  value, and \<^verbatim>\<open>bool\<close> is a subclass of \<^verbatim>\<open>int\<close> with \<^verbatim>\<open>True == 1\<close>.
\<close>

datatype pyfloat = Finite rat | PosInf | NegInf | NaN

datatype pyval =
    PyNone
  | PyBool bool
  | PyInt int
  | PyFloat pyfloat
  | PyStr string
  | PyList "pyval list"

datatype pytype = NoneT | BoolT | IntT | FloatT | StrT | ListT | IteratorT

fun type_of :: "pyval \<Rightarrow> pytype" where
  "type_of PyNone = NoneT"
| "type_of (PyBool _) = BoolT"
| "type_of (PyInt _) = IntT"
| "type_of (PyFloat _) = FloatT"
| "type_of (PyStr _) = StrT"
| "type_of (PyList _) = ListT"

text \<open>
  The exception classes that occur, with Python's hierarchy:
  \<^verbatim>\<open>BaseException > Exception > {TypeError, ValueError, IndexError, AttributeError,
  ArithmeticError > ZeroDivisionError, user classes}\<close> and
  \<^verbatim>\<open>BaseException > KeyboardInterrupt\<close>.
\<close>

datatype exc_class =
    BaseException
  | Exception
  | TypeError
  | ValueError
  | IndexError
  | AttributeError
  | ArithmeticError
  | ZeroDivisionError
  | KeyboardInterrupt
  | UserError string

fun bases :: "exc_class \<Rightarrow> exc_class list" where
  "bases BaseException = []"
| "bases Exception = [BaseException]"
| "bases KeyboardInterrupt = [BaseException]"
| "bases ZeroDivisionError = [ArithmeticError, Exception, BaseException]"
| "bases _ = [Exception, BaseException]"

definition issubclass :: "exc_class \<Rightarrow> exc_class \<Rightarrow> bool" where
  "issubclass c d = (c = d \<or> d \<in> set (bases c))"

text \<open>
  An exception is its class and its message; the message of an f-string is kept as its
  fragments, a formatted value \<^verbatim>\<open>{v}\<close> as \<open>Val v\<close> and \<^verbatim>\<open>{type(v)}\<close> as \<open>Ty (type_of v)\<close>.
\<close>

datatype fpart = Lit string | Val pyval | Ty pytype

datatype exn = Exn (exn_class: exc_class) (exn_message: "fpart list")

definition isinstance :: "exn \<Rightarrow> exc_class list \<Rightarrow> bool" where
  "isinstance e classes = list_ex (issubclass (exn_class e)) classes"

text \<open>
  \<^verbatim>\<open>v < n\<close>, \<^verbatim>\<open>v <= n\<close> and \<^verbatim>\<open>v >= n\<close> for an \<^verbatim>\<open>int\<close> literal \<open>n\<close>: numeric for
  \<^verbatim>\<open>bool\<close>, \<^verbatim>\<open>int\<close> and \<^verbatim>\<open>float\<close> (every comparison with NaN is false), a
  \<^verbatim>\<open>TypeError\<close> for the other values.
\<close>

fun number_of :: "pyval \<Rightarrow> pyfloat option" where
  "number_of (PyBool b) = Some (Finite (if b then 1 else 0))"
| "number_of (PyInt i) = Some (Finite (of_int i))"
| "number_of (PyFloat f) = Some f"
| "number_of _ = None"

fun float_lt :: "pyfloat \<Rightarrow> rat \<Rightarrow> bool" where
  "float_lt (Finite r) q = (r < q)"
| "float_lt NegInf q = True"
| "float_lt PosInf q = False"
| "float_lt NaN q = False"

fun float_eq :: "pyfloat \<Rightarrow> rat \<Rightarrow> bool" where
  "float_eq (Finite r) q = (r = q)"
| "float_eq _ q = False"

fun float_gt :: "pyfloat \<Rightarrow> rat \<Rightarrow> bool" where
  "float_gt (Finite r) q = (q < r)"
| "float_gt PosInf q = True"
| "float_gt NegInf q = False"
| "float_gt NaN q = False"

definition not_supported :: "string \<Rightarrow> pyval \<Rightarrow> exn" where
  "not_supported opname v =
     Exn TypeError [Lit opname, Lit '' not supported between instances of '',
                    Ty (type_of v), Lit '' and '', Ty IntT]"

definition py_lt :: "pyval \<Rightarrow> int \<Rightarrow> exn + bool" where
  "py_lt v n = (case number_of v of
       None \<Rightarrow> Inl (not_supported ''<'' v)
     | Some x \<Rightarrow> Inr (float_lt x (of_int n)))"

definition py_le :: "pyval \<Rightarrow> int \<Rightarrow> exn + bool" where
  "py_le v n = (case number_of v of
       None \<Rightarrow> Inl (not_supported ''<='' v)
     | Some x \<Rightarrow> Inr (float_lt x (of_int n) \<or> float_eq x (of_int n)))"

definition py_ge :: "pyval \<Rightarrow> int \<Rightarrow> exn + bool" where
  "py_ge v n = (case number_of v of
       None \<Rightarrow> Inl (not_supported ''>='' v)
     | Some x \<Rightarrow> Inr (float_gt x (of_int n) \<or> float_eq x (of_int n)))"

text \<open>\<^verbatim>\<open>v == n\<close> never raises: values that are not numbers are simply unequal to \<open>n\<close>.\<close>

definition py_eq :: "pyval \<Rightarrow> int \<Rightarrow> bool" where
  "py_eq v n = (case number_of v of None \<Rightarrow> False | Some x \<Rightarrow> float_eq x (of_int n))"

text \<open>\<^verbatim>\<open>isinstance(v, int)\<close>: true of \<^verbatim>\<open>int\<close> and of its subclass \<^verbatim>\<open>bool\<close>.\<close>

fun isinstance_int :: "pyval \<Rightarrow> bool" where
  "isinstance_int (PyInt _) = True"
| "isinstance_int (PyBool _) = True"
| "isinstance_int _ = False"

section \<open>Iterators\<close>

text \<open>
  A call of \<^verbatim>\<open>next(it)\<close> yields an element, raises an exception, or raises
  \<^verbatim>\<open>StopIteration\<close>. An iterator obtained from user code (the object a source factory
  returns, or the producer compiled from an upstream plan) is represented by the outcomes
  its successive \<^verbatim>\<open>next\<close> calls will have before it is exhausted; \<open>next_it\<close> consumes
  the first one, and an exhausted iterator keeps raising \<^verbatim>\<open>StopIteration\<close>. Only
  iterators that end after finitely many pulls are represented: on an endless one a
  consumer that pulls to exhaustion does not return, and nothing below is about it.
\<close>

datatype 'a pulled = Elem 'a | Fail exn

datatype 'a outcome = Yield 'a | Raise exn | StopIteration

type_synonym 'a iterator = "'a pulled list"

fun next_it :: "'a iterator \<Rightarrow> 'a outcome \<times> 'a iterator" where
  "next_it [] = (StopIteration, [])"
| "next_it (Elem x # rest) = (Yield x, rest)"
| "next_it (Fail e # rest) = (Raise e, rest)"

text \<open>
  The objects a user can pass where a source is expected: a plain value, an iterator, or
  (second datatype) a callable that returns one of these when called without arguments.
\<close>

datatype 'a pyobject = Value pyval | IteratorObj "'a iterator"

datatype 'a source_arg = Callable "unit \<Rightarrow> 'a pyobject" | NotCallable "'a pyobject"

fun type_of_object :: "'a pyobject \<Rightarrow> pytype" where
  "type_of_object (Value v) = type_of v"
| "type_of_object (IteratorObj _) = IteratorT"

text \<open>\<^verbatim>\<open>'{obj}'\<close> in a message: the value itself, or a placeholder for an iterator object
  (its text holds a memory address).\<close>

fun fmt_object :: "'a pyobject \<Rightarrow> fpart" where
  "fmt_object (Value v) = Val v"
| "fmt_object (IteratorObj _) = Lit ''<iterator object>''"

section \<open>The streamable plan and its builders (\<^verbatim>\<open>streamable/_stream.py\<close>)\<close>

text \<open>
  The logger and the two variables that \<^verbatim>\<open>Stream.iterate\<close> shares with its closure
  \<^verbatim>\<open>register_error_sample\<close> (\<^verbatim>\<open>nonlocal errors_count\<close>, the list \<^verbatim>\<open>error_samples\<close>)
  form the mutable state that is passed through the iteration.
\<close>

text \<open>A log record: an entry at level INFO, or the entry at level ERROR that
  \<^verbatim>\<open>iterate\<close> writes, with its two arguments (the sample capacity and the samples).\<close>

datatype log_record = LogInfo "fpart list" | LogErrorSamples nat "exn list"

record env =
  errors_count :: nat
  error_samples :: "exn list"
  logger :: "log_record list"

text \<open>
  User functions are pure and may raise. A \<^verbatim>\<open>when\<close> predicate of \<^verbatim>\<open>catch\<close> may be a
  closure over \<open>env\<close>, so it takes and returns the state.
\<close>

type_synonym func = "pyval \<Rightarrow> exn + pyval"
type_synonym predicate = "pyval \<Rightarrow> exn + bool"
type_synonym when_fn = "exn \<Rightarrow> env \<Rightarrow> (exn + bool) \<times> env"

text \<open>One constructor per class of \<^verbatim>\<open>_stream.py\<close>, with the attributes its
  \<^verbatim>\<open>__init__\<close> stores, in the order of its parameters.\<close>

datatype stream =
    Stream "unit \<Rightarrow> pyval pyobject"
  | FilterStream stream predicate
  | MapStream stream func pyval
  | DoStream stream func pyval
  | ObserveStream stream string bool
  | FlattenStream stream pyval
  | BatchStream stream pyval pyval
  | CatchStream stream "exc_class list" "when_fn option"
  | ChainStream stream "stream list"
  | SlowStream stream pyval

text \<open>\<^verbatim>\<open>Stream.__init__\<close>: only the base class checks its argument.\<close>

definition Stream_init :: "pyval source_arg \<Rightarrow> exn + stream" where
  "Stream_init source = (case source of
       NotCallable obj \<Rightarrow>
         Inl (Exn TypeError [Lit ''source must be a callable but got a '', Ty (type_of_object obj)])
     | Callable f \<Rightarrow> Inr (Stream f))"

definition validate_concurrency :: "pyval \<Rightarrow> exn + unit" where
  "validate_concurrency concurrency = (case py_lt concurrency 1 of
       Inl e \<Rightarrow> Inl e
     | Inr True \<Rightarrow>
         Inl (Exn ValueError [Lit ''`concurrency` should be greater or equal to 1, but got '',
                              Val concurrency, Lit ''.''])
     | Inr False \<Rightarrow> Inr ())"

definition Stream_map :: "stream \<Rightarrow> func \<Rightarrow> pyval \<Rightarrow> exn + stream" where
  "Stream_map self f concurrency = (case validate_concurrency concurrency of
       Inl e \<Rightarrow> Inl e
     | Inr _ \<Rightarrow> Inr (MapStream self f concurrency))"

definition Stream_do :: "stream \<Rightarrow> func \<Rightarrow> pyval \<Rightarrow> exn + stream" where
  "Stream_do self f concurrency = (case validate_concurrency concurrency of
       Inl e \<Rightarrow> Inl e
     | Inr _ \<Rightarrow> Inr (DoStream self f concurrency))"

definition Stream_flatten :: "stream \<Rightarrow> pyval \<Rightarrow> exn + stream" where
  "Stream_flatten self concurrency = (case validate_concurrency concurrency of
       Inl e \<Rightarrow> Inl e
     | Inr _ \<Rightarrow> Inr (FlattenStream self concurrency))"

definition Stream_chain :: "stream \<Rightarrow> stream list \<Rightarrow> stream" where
  "Stream_chain self others = ChainStream self others"

definition Stream_filter :: "stream \<Rightarrow> predicate \<Rightarrow> stream" where
  "Stream_filter self p = FilterStream self p"

definition Stream_batch :: "stream \<Rightarrow> pyval \<Rightarrow> pyval \<Rightarrow> exn + stream" where
  "Stream_batch self size' seconds = (case py_lt size' 1 of
       Inl e \<Rightarrow> Inl e
     | Inr True \<Rightarrow> Inl (Exn ValueError [Lit ''batch's size should be >= 1 but got '', Val size', Lit ''.''])
     | Inr False \<Rightarrow> (case py_le seconds 0 of
           Inl e \<Rightarrow> Inl e
         | Inr True \<Rightarrow>
             Inl (Exn ValueError [Lit ''batch's seconds should be > 0 but got '', Val seconds, Lit ''.''])
         | Inr False \<Rightarrow> Inr (BatchStream self size' seconds)))"

definition Stream_slow :: "stream \<Rightarrow> pyval \<Rightarrow> exn + stream" where
  "Stream_slow self frequency = (case py_le frequency 0 of
       Inl e \<Rightarrow> Inl e
     | Inr True \<Rightarrow>
         Inl (Exn ValueError
           [Lit ''frequency is the maximum number of elements to yield per second, it must be > 0  but got '',
            Val frequency, Lit ''.''])
     | Inr False \<Rightarrow> Inr (SlowStream self frequency))"

definition Stream_catch :: "stream \<Rightarrow> exc_class list \<Rightarrow> when_fn option \<Rightarrow> stream" where
  "Stream_catch self classes when = CatchStream self classes when"

definition Stream_observe :: "stream \<Rightarrow> string \<Rightarrow> bool \<Rightarrow> stream" where
  "Stream_observe self what colored = ObserveStream self what colored"

text \<open>\<^verbatim>\<open>isinstance(self, ObserveStream)\<close>.\<close>

fun isinstance_ObserveStream :: "stream \<Rightarrow> bool" where
  "isinstance_ObserveStream (ObserveStream _ _ _) = True"
| "isinstance_ObserveStream _ = False"

section \<open>The kioss plan and its builders (\<^verbatim>\<open>kioss/_pipe.py\<close>)\<close>

datatype pipe =
    SourcePipe "unit \<Rightarrow> pyval pyobject"
  | FilterPipe pipe predicate
  | MapPipe pipe func pyval
  | DoPipe pipe func pyval
  | LogPipe pipe string bool
  | FlattenPipe pipe pyval
  | BatchPipe pipe pyval pyval
  | CatchPipe pipe "exc_class list" "when_fn option"
  | ChainPipe pipe "pipe list"
  | SlowPipe pipe pyval

text \<open>\<^verbatim>\<open>SourcePipe.__init__\<close> (reached through \<^verbatim>\<open>Pipe.from_source\<close>).\<close>

definition SourcePipe_init :: "pyval source_arg \<Rightarrow> exn + pipe" where
  "SourcePipe_init source = (case source of
       NotCallable obj \<Rightarrow>
         Inl (Exn TypeError
           [Lit ''source must be a callable returning an iterator, but the provided source is not a callable: got source '',
            Lit [CHR 0x27], fmt_object obj, Lit [CHR 0x27], Lit '' of type '',
            Ty (type_of_object obj), Lit ''.''])
     | Callable f \<Rightarrow> Inr (SourcePipe f))"

definition sanitize_n_threads :: "pyval \<Rightarrow> exn + unit" where
  "sanitize_n_threads n_threads =
     (if \<not> isinstance_int n_threads then
        Inl (Exn TypeError [Lit ''n_threads should be an int but got '', Lit [CHR 0x27],
                            Val n_threads, Lit [CHR 0x27], Lit '' of type '',
                            Ty (type_of n_threads), Lit ''.''])
      else (case py_lt n_threads 1 of
          Inl e \<Rightarrow> Inl e
        | Inr True \<Rightarrow>
            Inl (Exn ValueError [Lit ''n_threads should be greater or equal to 1, but got '',
                                 Val n_threads, Lit ''.''])
        | Inr False \<Rightarrow> Inr ()))"

definition Pipe_map :: "pipe \<Rightarrow> func \<Rightarrow> pyval \<Rightarrow> exn + pipe" where
  "Pipe_map self f n_threads = (case sanitize_n_threads n_threads of
       Inl e \<Rightarrow> Inl e
     | Inr _ \<Rightarrow> Inr (MapPipe self f n_threads))"

definition Pipe_do :: "pipe \<Rightarrow> func \<Rightarrow> pyval \<Rightarrow> exn + pipe" where
  "Pipe_do self f n_threads = (case sanitize_n_threads n_threads of
       Inl e \<Rightarrow> Inl e
     | Inr _ \<Rightarrow> Inr (DoPipe self f n_threads))"

definition Pipe_flatten :: "pipe \<Rightarrow> pyval \<Rightarrow> exn + pipe" where
  "Pipe_flatten self n_threads = (case sanitize_n_threads n_threads of
       Inl e \<Rightarrow> Inl e
     | Inr _ \<Rightarrow> Inr (FlattenPipe self n_threads))"

definition Pipe_chain :: "pipe \<Rightarrow> pipe list \<Rightarrow> pipe" where
  "Pipe_chain self others = ChainPipe self others"


section \<open>The iterator-generating visitor (\<^verbatim>\<open>kioss/_visitor.py\<close>)\<close>

text \<open>
  Each \<^verbatim>\<open>visit...\<close> method of \<^verbatim>\<open>IteratorGeneratingVisitor\<close> is a function of the node
  it receives. The dynamic call \<^verbatim>\<open>pipe.upstream._accept(self)\<close> is the parameter
  \<open>accept\<close>: it returns the iterator compiled from the upstream plan, or the exception
  that compiling it raised. Through \<^verbatim>\<open>_accept\<close> a method only receives nodes of its own
  class. Called on a node of another class it raises \<^verbatim>\<open>AttributeError\<close> at the first
  attribute the node does not have, after whatever the method evaluates before reading
  it: the last equations of each method follow the order of evaluation of its body.
  (The two kioss files are of different
  revisions: \<^verbatim>\<open>_pipe.py\<close> dispatches to \<^verbatim>\<open>visit_source_pipe\<close>, \<^verbatim>\<open>visit_map_pipe\<close>, ...,
  which \<^verbatim>\<open>_visitor.py\<close> spells \<^verbatim>\<open>visitSourcePipe\<close>, \<^verbatim>\<open>visitMapPipe\<close>, ...; each node
  class is paired with the method written for it.)
\<close>

definition attribute_error :: exn where
  "attribute_error = Exn AttributeError [Lit ''the node has no such attribute'']"

text \<open>\<^verbatim>\<open>pipe.upstream\<close>: every node has the attribute; it is \<^verbatim>\<open>None\<close> on a source node.\<close>

fun upstream_of :: "pipe \<Rightarrow> pipe option" where
  "upstream_of (SourcePipe source) = None"
| "upstream_of (FilterPipe upstream p) = Some upstream"
| "upstream_of (MapPipe upstream f n_threads) = Some upstream"
| "upstream_of (DoPipe upstream f n_threads) = Some upstream"
| "upstream_of (LogPipe upstream what colored) = Some upstream"
| "upstream_of (FlattenPipe upstream n_threads) = Some upstream"
| "upstream_of (BatchPipe upstream size' period) = Some upstream"
| "upstream_of (CatchPipe upstream classes pred) = Some upstream"
| "upstream_of (ChainPipe upstream others) = Some upstream"
| "upstream_of (SlowPipe upstream freq) = Some upstream"

text \<open>\<^verbatim>\<open>pipe.upstream._accept(self)\<close> followed by the read of an attribute the node does not
  have: \<^verbatim>\<open>None\<close> has no \<^verbatim>\<open>_accept\<close>, and an exception of the upstream compilation
  comes before the \<^verbatim>\<open>AttributeError\<close>.\<close>

definition accept_then_attribute_error :: "(pipe \<Rightarrow> exn + 'i) \<Rightarrow> pipe \<Rightarrow> exn" where
  "accept_then_attribute_error accept pipe = (case upstream_of pipe of
       None \<Rightarrow> attribute_error
     | Some upstream \<Rightarrow> (case accept upstream of Inl e \<Rightarrow> e | Inr it \<Rightarrow> attribute_error))"

text \<open>
  Modelled from the spec: \<^verbatim>\<open>_util.duck_check_type_is_iterator\<close> is not among the source
  files. The spec (4.1) has the source producer verify ``that the returned object is
  actually pull-iterable (emit a descriptive type error otherwise)'', and the caller's
  message names the two methods looked for, \<^verbatim>\<open>__iter__\<close> and \<^verbatim>\<open>__next__\<close>: only an
  iterator has both (a list has \<^verbatim>\<open>__iter__\<close> alone). On success the checked iterator
  is handed back, so that the caller can return it.
\<close>

definition duck_check_type_is_iterator :: "'a pyobject \<Rightarrow> exn + 'a iterator" where
  "duck_check_type_is_iterator obj = (case obj of
       IteratorObj it \<Rightarrow> Inr it
     | Value v \<Rightarrow> Inl (Exn TypeError [Lit ''the object is not an iterator: '', Ty (type_of v)]))"

fun visitSourcePipe :: "pipe \<Rightarrow> exn + pyval iterator" where
  "visitSourcePipe (SourcePipe source) =
     (let iterator = source () in
      case duck_check_type_is_iterator iterator of
        Inl e \<Rightarrow>
          Inl (Exn TypeError
            [Lit ''source must be a callable returning an iterator (implements __iter__ and __next__ methods), but the object resulting from a call to source() was not an iterator: got '',
             Lit [CHR 0x27], fmt_object iterator, Lit [CHR 0x27], Lit '' of type '',
             Ty (type_of_object iterator), Lit ''.''])
      | Inr it \<Rightarrow> Inr it)"
| "visitSourcePipe _ = Inl attribute_error"

subsection \<open>Map\<close>

text \<open>The built-in \<^verbatim>\<open>map(func, iterator)\<close>: one upstream pull per \<^verbatim>\<open>next\<close>.\<close>

definition builtin_map_next ::
  "('a \<Rightarrow> exn + 'b) \<Rightarrow> 'a iterator \<Rightarrow> 'b outcome \<times> 'a iterator" where
  "builtin_map_next f it = (case next_it it of
       (Yield x, it') \<Rightarrow> (case f x of Inl e \<Rightarrow> (Raise e, it') | Inr y \<Rightarrow> (Yield y, it'))
     | (Raise e, it') \<Rightarrow> (Raise e, it')
     | (StopIteration, it') \<Rightarrow> (StopIteration, it'))"

text \<open>
  Modelled from the spec: \<^verbatim>\<open>_concurrent_exec.ThreadedMappingIteratorWrapper\<close> is not
  among the source files. Spec 4.3: a bounded FIFO of futures of size \<^verbatim>\<open>concurrency\<close>;
  ``the producer pulls the next upstream element, submits \<^verbatim>\<open>func(elem)\<close> to the pool,
  appends the resulting future to the tail of the FIFO, then (when the FIFO is full OR
  upstream is exhausted) blocks on the head future and yields its value. An upstream
  \<^verbatim>\<open>next\<close> failure is recorded as a completed-with-error future at the tail so that it
  surfaces in order.'' A future is represented by the result it completes with, which
  for a pure \<open>func\<close> does not depend on the scheduling of the workers. The bound of the
  FIFO is \<open>n_workers\<close> read as a natural number.
\<close>

record ('a, 'b) threaded_mapping =
  tm_iterator :: "'a iterator"
  tm_func :: "'a \<Rightarrow> exn + 'b"
  tm_n_workers :: nat
  tm_futures :: "'b pulled list"
  tm_exhausted :: bool

fun pool_size :: "pyval \<Rightarrow> nat" where
  "pool_size (PyInt k) = nat k"
| "pool_size (PyBool b) = (if b then 1 else 0)"
| "pool_size _ = 0"

definition ThreadedMappingIteratorWrapper_init ::
  "'a iterator \<Rightarrow> ('a \<Rightarrow> exn + 'b) \<Rightarrow> pyval \<Rightarrow> ('a, 'b) threaded_mapping" where
  "ThreadedMappingIteratorWrapper_init it f n_workers =
     \<lparr>tm_iterator = it, tm_func = f, tm_n_workers = pool_size n_workers,
      tm_futures = [], tm_exhausted = False\<rparr>"

definition submit :: "('a \<Rightarrow> exn + 'b) \<Rightarrow> 'a \<Rightarrow> 'b pulled" where
  "submit f x = (case f x of Inl e \<Rightarrow> Fail e | Inr y \<Rightarrow> Elem y)"

fun future_result :: "'b pulled \<Rightarrow> 'b outcome" where
  "future_result (Elem y) = Yield y"
| "future_result (Fail e) = Raise e"

function fill_futures :: "('a, 'b) threaded_mapping \<Rightarrow> ('a, 'b) threaded_mapping" where
  "fill_futures t =
     (if length (tm_futures t) < tm_n_workers t \<and> \<not> tm_exhausted t then
        (case next_it (tm_iterator t) of
           (StopIteration, it') \<Rightarrow> t\<lparr>tm_iterator := it', tm_exhausted := True\<rparr>
         | (Yield x, it') \<Rightarrow>
             fill_futures (t\<lparr>tm_iterator := it', tm_futures := tm_futures t @ [submit (tm_func t) x]\<rparr>)
         | (Raise e, it') \<Rightarrow>
             fill_futures (t\<lparr>tm_iterator := it', tm_futures := tm_futures t @ [Fail e]\<rparr>))
      else t)"
  by pat_completeness auto

lemma next_it_shorter:
  "next_it it = (r, it') \<Longrightarrow> r \<noteq> StopIteration \<Longrightarrow> length it' < length it"
  by (cases it rule: next_it.cases) auto

lemma next_it_shorter_sym:
  "(r, it') = next_it it \<Longrightarrow> r \<noteq> StopIteration \<Longrightarrow> length it' < length it"
  by (cases it rule: next_it.cases) auto

termination fill_futures
  by (relation "measure (\<lambda>t. length (tm_iterator t))") (auto dest: next_it_shorter_sym)

declare fill_futures.simps [simp del]

lemma fill_futures_done:
  "\<not> (length (tm_futures t) < tm_n_workers t \<and> \<not> tm_exhausted t) \<Longrightarrow> fill_futures t = t"
  by (subst fill_futures.simps) auto

lemma fill_futures_stop:
  "length (tm_futures t) < tm_n_workers t \<Longrightarrow> \<not> tm_exhausted t \<Longrightarrow> tm_iterator t = [] \<Longrightarrow>
     fill_futures t = t\<lparr>tm_iterator := [], tm_exhausted := True\<rparr>"
  by (subst fill_futures.simps) simp

lemma fill_futures_elem:
  "length (tm_futures t) < tm_n_workers t \<Longrightarrow> \<not> tm_exhausted t \<Longrightarrow>
   tm_iterator t = Elem x # rest \<Longrightarrow>
     fill_futures t =
       fill_futures (t\<lparr>tm_iterator := rest, tm_futures := tm_futures t @ [submit (tm_func t) x]\<rparr>)"
  by (subst fill_futures.simps) simp

lemma fill_futures_fail:
  "length (tm_futures t) < tm_n_workers t \<Longrightarrow> \<not> tm_exhausted t \<Longrightarrow>
   tm_iterator t = Fail e # rest \<Longrightarrow>
     fill_futures t = fill_futures (t\<lparr>tm_iterator := rest, tm_futures := tm_futures t @ [Fail e]\<rparr>)"
  by (subst fill_futures.simps) simp

definition threaded_mapping_next ::
  "('a, 'b) threaded_mapping \<Rightarrow> 'b outcome \<times> ('a, 'b) threaded_mapping" where
  "threaded_mapping_next t =
     (let t' = fill_futures t in
      case tm_futures t' of
        [] \<Rightarrow> (StopIteration, t')
      | future # rest \<Rightarrow> (future_result future, t'\<lparr>tm_futures := rest\<rparr>))"

text \<open>The iterator \<^verbatim>\<open>visitMapPipe\<close> returns is one of the two. (A \<^verbatim>\<open>DoPipe\<close> has the three
  attributes the method reads, so the method treats it as it treats a \<^verbatim>\<open>MapPipe\<close>. A
  \<^verbatim>\<open>FlattenPipe\<close> has \<^verbatim>\<open>n_threads\<close> but no \<^verbatim>\<open>func\<close>, which the first branch reads before
  it compiles upstream and the second after. The other nodes have no \<^verbatim>\<open>n_threads\<close>, read
  first.)\<close>

datatype ('a, 'b) map_iterator =
    BuiltinMap "'a \<Rightarrow> exn + 'b" "'a iterator"
  | ThreadedMapping "('a, 'b) threaded_mapping"

fun visitMapPipe :: "(pipe \<Rightarrow> exn + pyval iterator) \<Rightarrow> pipe \<Rightarrow> exn + (pyval, pyval) map_iterator" where
  "visitMapPipe accept (MapPipe upstream f n_threads) =
     (if py_eq n_threads 1 then
        (case accept upstream of
           Inl e \<Rightarrow> Inl e
         | Inr it \<Rightarrow> Inr (BuiltinMap f it))
      else
        (case accept upstream of
           Inl e \<Rightarrow> Inl e
         | Inr it \<Rightarrow> Inr (ThreadedMapping (ThreadedMappingIteratorWrapper_init it f n_threads))))"
| "visitMapPipe accept (DoPipe upstream f n_threads) =
     (if py_eq n_threads 1 then
        (case accept upstream of
           Inl e \<Rightarrow> Inl e
         | Inr it \<Rightarrow> Inr (BuiltinMap f it))
      else
        (case accept upstream of
           Inl e \<Rightarrow> Inl e
         | Inr it \<Rightarrow> Inr (ThreadedMapping (ThreadedMappingIteratorWrapper_init it f n_threads))))"
| "visitMapPipe accept (FlattenPipe upstream n_threads) =
     (if py_eq n_threads 1 then Inl attribute_error
      else Inl (accept_then_attribute_error accept (FlattenPipe upstream n_threads)))"
| "visitMapPipe accept _ = Inl attribute_error"

fun map_iterator_next :: "('a, 'b) map_iterator \<Rightarrow> 'b outcome \<times> ('a, 'b) map_iterator" where
  "map_iterator_next (BuiltinMap f it) =
     (case builtin_map_next f it of (r, it') \<Rightarrow> (r, BuiltinMap f it'))"
| "map_iterator_next (ThreadedMapping t) =
     (case threaded_mapping_next t of (r, t') \<Rightarrow> (r, ThreadedMapping t'))"

text \<open>
  What a consumer sees that calls \<^verbatim>\<open>next\<close> until \<^verbatim>\<open>StopIteration\<close>, going on after an
  exception: the outcomes of its calls, in order.
\<close>

fun map_iterator_left :: "('a, 'b) map_iterator \<Rightarrow> nat" where
  "map_iterator_left (BuiltinMap f it) = length it"
| "map_iterator_left (ThreadedMapping t) = length (tm_iterator t) + length (tm_futures t)"

lemma fill_futures_left:
  "length (tm_iterator (fill_futures t)) + length (tm_futures (fill_futures t))
     = length (tm_iterator t) + length (tm_futures t)"
proof (induction "length (tm_iterator t)" arbitrary: t rule: less_induct)
  case less
  show ?case
  proof (cases "length (tm_futures t) < tm_n_workers t \<and> \<not> tm_exhausted t")
    case False
    then show ?thesis by (simp add: fill_futures_done)
  next
    case True
    show ?thesis
    proof (cases "tm_iterator t")
      case Nil
      with True show ?thesis by (simp add: fill_futures_stop)
    next
      case (Cons p rest)
      show ?thesis
      proof (cases p)
        case (Elem x)
        with True Cons
          less [of "t\<lparr>tm_iterator := rest, tm_futures := tm_futures t @ [submit (tm_func t) x]\<rparr>"]
        show ?thesis by (simp add: fill_futures_elem)
      next
        case (Fail e)
        with True Cons less [of "t\<lparr>tm_iterator := rest, tm_futures := tm_futures t @ [Fail e]\<rparr>"]
        show ?thesis by (simp add: fill_futures_fail)
      qed
    qed
  qed
qed

lemma map_iterator_next_left:
  "map_iterator_next m = (r, m') \<Longrightarrow> r \<noteq> StopIteration \<Longrightarrow>
     map_iterator_left m' < map_iterator_left m"
proof (cases m)
  case (BuiltinMap f it)
  assume "map_iterator_next m = (r, m')" "r \<noteq> StopIteration"
  with BuiltinMap show ?thesis
    by (cases it rule: next_it.cases)
       (auto simp: builtin_map_next_def split: sum.splits)
next
  case (ThreadedMapping t)
  assume "map_iterator_next m = (r, m')" "r \<noteq> StopIteration"
  with ThreadedMapping fill_futures_left [of t] show ?thesis
    by (auto simp: threaded_mapping_next_def Let_def split: list.splits)
qed

function map_iterator_outcomes :: "('a, 'b) map_iterator \<Rightarrow> 'b pulled list" where
  "map_iterator_outcomes m = (case map_iterator_next m of
       (StopIteration, m') \<Rightarrow> []
     | (Yield y, m') \<Rightarrow> Elem y # map_iterator_outcomes m'
     | (Raise e, m') \<Rightarrow> Fail e # map_iterator_outcomes m')"
  by pat_completeness auto
termination
  by (relation "measure map_iterator_left") (auto dest: map_iterator_next_left [OF sym])

declare map_iterator_outcomes.simps [simp del]

subsection \<open>Chain\<close>

text \<open>
  \<^verbatim>\<open>iter(other)\<close> on a pipe is \<^verbatim>\<open>Pipe.__iter__\<close>: it instantiates the class stored in
  the class attribute \<^verbatim>\<open>Pipe.ITERATOR_PRODUCING_VISITOR_CLASS\<close> and lets the pipe accept
  it. A concrete class is represented by what its instances compile a pipe to.
\<close>

datatype 'i visitor_class = Abstract | Concrete "pipe \<Rightarrow> exn + 'i"

definition Pipe_iter :: "'i visitor_class option \<Rightarrow> pipe \<Rightarrow> exn + 'i" where
  "Pipe_iter ITERATOR_PRODUCING_VISITOR_CLASS self = (case ITERATOR_PRODUCING_VISITOR_CLASS of
       None \<Rightarrow> Inl (Exn ValueError [Lit ''_pipe.ITERATOR_PRODUCING_VISITOR_CLASS is None''])
     | Some Abstract \<Rightarrow> Inl (Exn ValueError [Lit ''_pipe.ITERATOR_PRODUCING_VISITOR_CLASS is abstract''])
     | Some (Concrete accept) \<Rightarrow> accept self)"

text \<open>\<^verbatim>\<open>list(map(iter, others))\<close>: in order, the first exception ends it.\<close>

fun list_map_iter :: "(pipe \<Rightarrow> exn + 'i) \<Rightarrow> pipe list \<Rightarrow> exn + 'i list" where
  "list_map_iter iter [] = Inr []"
| "list_map_iter iter (other # others) = (case iter other of
       Inl e \<Rightarrow> Inl e
     | Inr it \<Rightarrow> (case list_map_iter iter others of
           Inl e \<Rightarrow> Inl e
         | Inr its \<Rightarrow> Inr (it # its)))"

text \<open>
  \<^verbatim>\<open>itertools.chain(*iterables)\<close> of the standard library: it pulls from the first
  iterable that is not exhausted; \<^verbatim>\<open>StopIteration\<close> from it makes the chain move on to
  the next one within the same call; an element or an exception is passed on and the
  iterable stays the active one. The object keeps the iterables still to be consumed
  (the active one first) and the number of those it has dropped. So that the order of
  the pulls can be stated, \<open>chain_step\<close> also returns the positions (in the argument list
  of \<^verbatim>\<open>chain\<close>) of the iterables whose \<^verbatim>\<open>next\<close> it called, in call order.
\<close>

record 'a chain =
  ch_dropped :: nat
  ch_iterables :: "'a iterator list"

definition itertools_chain :: "'a iterator list \<Rightarrow> 'a chain" where
  "itertools_chain iterables = \<lparr>ch_dropped = 0, ch_iterables = iterables\<rparr>"

fun chain_step :: "nat \<Rightarrow> 'a iterator list \<Rightarrow> 'a outcome \<times> 'a chain \<times> nat list" where
  "chain_step k [] = (StopIteration, \<lparr>ch_dropped = k, ch_iterables = []\<rparr>, [])"
| "chain_step k (active # rest) = (case next_it active of
       (StopIteration, active') \<Rightarrow>
         (case chain_step (Suc k) rest of (r, c, pulls) \<Rightarrow> (r, c, k # pulls))
     | (r, active') \<Rightarrow> (r, \<lparr>ch_dropped = k, ch_iterables = active' # rest\<rparr>, [k]))"

definition chain_next :: "'a chain \<Rightarrow> 'a outcome \<times> 'a chain \<times> nat list" where
  "chain_next c = chain_step (ch_dropped c) (ch_iterables c)"

fun visitChainPipe ::
  "'a iterator visitor_class option \<Rightarrow> (pipe \<Rightarrow> exn + 'a iterator) \<Rightarrow> pipe \<Rightarrow> exn + 'a chain" where
  "visitChainPipe visitor_slot accept (ChainPipe upstream others) = (case accept upstream of
       Inl e \<Rightarrow> Inl e
     | Inr it \<Rightarrow> (case list_map_iter (Pipe_iter visitor_slot) others of
           Inl e \<Rightarrow> Inl e
         | Inr its \<Rightarrow> Inr (itertools_chain (it # its))))"
| "visitChainPipe visitor_slot accept pipe = Inl (accept_then_attribute_error accept pipe)"

text \<open>A consumer that calls \<^verbatim>\<open>next\<close> until \<^verbatim>\<open>StopIteration\<close>: the outcomes of its calls
  and the positions of all the iterables pulled, both in order.\<close>

definition chain_left :: "'a chain \<Rightarrow> nat" where
  "chain_left c = sum_list (map length (ch_iterables c))"

lemma chain_step_left:
  "chain_step k its = (r, c, pulls) \<Longrightarrow> r \<noteq> StopIteration \<Longrightarrow>
     chain_left c < sum_list (map length its)"
proof (induction its arbitrary: k pulls)
  case Nil
  then show ?case by simp
next
  case (Cons active rest)
  show ?case
  proof (cases active)
    case Nil
    with Cons.prems obtain pulls' where "chain_step (Suc k) rest = (r, c, pulls')"
      by (auto split: prod.splits)
    with Cons.IH [of "Suc k" pulls'] Cons.prems(2) Nil show ?thesis by simp
  next
    case (Cons p active')
    with Cons.prems show ?thesis
      by (cases p) (auto simp: chain_left_def)
  qed
qed

function chain_run :: "'a chain \<Rightarrow> 'a pulled list \<times> nat list" where
  "chain_run c = (case chain_next c of
       (StopIteration, c', pulls) \<Rightarrow> ([], pulls)
     | (Yield x, c', pulls) \<Rightarrow> (case chain_run c' of (out, later) \<Rightarrow> (Elem x # out, pulls @ later))
     | (Raise e, c', pulls) \<Rightarrow> (case chain_run c' of (out, later) \<Rightarrow> (Fail e # out, pulls @ later)))"
  by pat_completeness auto
termination
  by (relation "measure chain_left")
     (auto simp: chain_next_def dest!: chain_step_left [OF sym] simp: chain_left_def)

declare chain_run.simps [simp del]

subsection \<open>Log\<close>


section \<open>The iteration driver (\<^verbatim>\<open>Stream.iterate\<close>)\<close>

text \<open>
  \<^verbatim>\<open>Stream.iterate\<close> wraps the plan in an \<^verbatim>\<open>ObserveStream\<close> and, unless \<^verbatim>\<open>fail_fast\<close>,
  in a \<^verbatim>\<open>CatchStream\<close>, and iterates over the result. The module that compiles a
  streamable plan (\<^verbatim>\<open>streamable._visit._iter\<close>) is not among the source files. The
  iterator it compiles the caller's plan to is the parameter \<open>produce\<close>; the two wrappers
  the driver adds are modelled from the spec, on top of it.
\<close>

subsection \<open>Observe\<close>

text \<open>
  Modelled from the spec: the producer of an \<^verbatim>\<open>ObserveStream\<close> is not among the source
  files. Spec 4.10: it ``counts elements yielded. Emits a log entry when the yielded count
  is 1 or a power of two (1, 2, 4, 8, 16, ...) and also at end-of-stream with the final
  count. The log entry includes \<^verbatim>\<open>what\<close> [...] and, if \<^verbatim>\<open>colored\<close>, ANSI color codes. No
  log on errors''; elements and exceptions pass through unchanged. A final count that is
  a power of two has its entry already (spec 9: ``Emit once'').
\<close>

record 'a observing =
  ob_iterator :: "'a iterator"
  ob_what :: string
  ob_colored :: bool
  ob_yields_count :: nat

fun is_power_of_two :: "nat \<Rightarrow> bool" where
  "is_power_of_two n = (if n \<le> 1 then n = 1 else even n \<and> is_power_of_two (n div 2))"

declare is_power_of_two.simps [simp del]

definition observe_entry :: "'a observing \<Rightarrow> nat \<Rightarrow> log_record" where
  "observe_entry ob n =
     LogInfo ((if ob_colored ob then [Lit (CHR 0x1B # ''[1;34m'')] else [])
              @ [Val (PyInt (int n)), Lit '' '', Lit (ob_what ob), Lit '' have been yielded'']
              @ (if ob_colored ob then [Lit (CHR 0x1B # ''[0m'')] else []))"

definition emit :: "log_record \<Rightarrow> env \<Rightarrow> env" where
  "emit entry env = env\<lparr>logger := logger env @ [entry]\<rparr>"

definition observing_next :: "'a observing \<Rightarrow> env \<Rightarrow> 'a outcome \<times> 'a observing \<times> env" where
  "observing_next ob env = (case next_it (ob_iterator ob) of
       (Yield x, it') \<Rightarrow>
         (let n = Suc (ob_yields_count ob);
              ob' = ob\<lparr>ob_iterator := it', ob_yields_count := n\<rparr>
          in (Yield x, ob', if is_power_of_two n then emit (observe_entry ob n) env else env))
     | (Raise e, it') \<Rightarrow> (Raise e, ob\<lparr>ob_iterator := it'\<rparr>, env)
     | (StopIteration, it') \<Rightarrow>
         (StopIteration, ob\<lparr>ob_iterator := it'\<rparr>,
          if is_power_of_two (ob_yields_count ob) then env
          else emit (observe_entry ob (ob_yields_count ob)) env))"

text \<open>What stands directly under a catch wrapper, or at the top when there is none: the
  compiled plan itself, or an observer of it.\<close>

datatype 'a uncaught = Bare "'a iterator" | Observing "'a observing"

fun uncaught_next :: "'a uncaught \<Rightarrow> env \<Rightarrow> 'a outcome \<times> 'a uncaught \<times> env" where
  "uncaught_next (Bare it) env = (case next_it it of (r, it') \<Rightarrow> (r, Bare it', env))"
| "uncaught_next (Observing ob) env =
     (case observing_next ob env of (r, ob', env') \<Rightarrow> (r, Observing ob', env'))"

fun uncaught_pending :: "'a uncaught \<Rightarrow> 'a iterator" where
  "uncaught_pending (Bare it) = it"
| "uncaught_pending (Observing ob) = ob_iterator ob"

subsection \<open>Catch\<close>

text \<open>
  Modelled from the spec: the producer of a \<^verbatim>\<open>CatchStream\<close> is not among the source files.
  Spec 4.9: ``On each pull, pulls upstream; if upstream raises an error whose kind is in
  (or is a subkind of) the configured set and \<^verbatim>\<open>when\<close> (if present) returns true, the
  catcher swallows the error and pulls again. If the predicate returns false or the kind
  does not match, the error propagates. End-of-stream is not an error and is never caught.
  The \<^verbatim>\<open>when\<close> predicate itself raising propagates unchanged.''
\<close>

record 'a catching =
  ca_iterator :: "'a uncaught"
  ca_classes :: "exc_class list"
  ca_when :: "when_fn option"

lemma uncaught_next_shorter:
  "(r, up', env') = uncaught_next up env \<Longrightarrow> r \<noteq> StopIteration \<Longrightarrow>
     length (uncaught_pending up') < length (uncaught_pending up)"
proof (cases up)
  case (Bare it)
  assume "(r, up', env') = uncaught_next up env" "r \<noteq> StopIteration"
  with Bare show ?thesis
    by (cases it rule: next_it.cases) auto
next
  case (Observing ob)
  assume "(r, up', env') = uncaught_next up env" "r \<noteq> StopIteration"
  with Observing show ?thesis
    by (cases "ob_iterator ob" rule: next_it.cases)
       (auto simp: observing_next_def Let_def)
qed

function catching_next :: "'a catching \<Rightarrow> env \<Rightarrow> 'a outcome \<times> 'a catching \<times> env" where
  "catching_next c env = (case uncaught_next (ca_iterator c) env of
       (Yield x, up', env') \<Rightarrow> (Yield x, c\<lparr>ca_iterator := up'\<rparr>, env')
     | (StopIteration, up', env') \<Rightarrow> (StopIteration, c\<lparr>ca_iterator := up'\<rparr>, env')
     | (Raise e, up', env') \<Rightarrow>
         (if isinstance e (ca_classes c) then
            (case ca_when c of
               None \<Rightarrow> catching_next (c\<lparr>ca_iterator := up'\<rparr>) env'
             | Some when \<Rightarrow> (case when e env' of
                   (Inl raised, env'') \<Rightarrow> (Raise raised, c\<lparr>ca_iterator := up'\<rparr>, env'')
                 | (Inr True, env'') \<Rightarrow> catching_next (c\<lparr>ca_iterator := up'\<rparr>) env''
                 | (Inr False, env'') \<Rightarrow> (Raise e, c\<lparr>ca_iterator := up'\<rparr>, env'')))
          else (Raise e, c\<lparr>ca_iterator := up'\<rparr>, env')))"
  by pat_completeness auto
termination
  by (relation "measure (\<lambda>(c, env). length (uncaught_pending (ca_iterator c)))")
     (auto dest: uncaught_next_shorter)

declare catching_next.simps [simp del]

subsection \<open>Compiling the driver's plan\<close>

text \<open>
  Modelled from the spec: \<^verbatim>\<open>visit_observe_stream\<close> and \<^verbatim>\<open>visit_catch_stream\<close> of the
  absent visitor, after their kioss predecessors \<^verbatim>\<open>visitLogPipe\<close> and \<^verbatim>\<open>visitCatchPipe\<close>:
  each compiles its upstream and wraps the result. \<open>Stream_iter\<close> is \<^verbatim>\<open>Stream.__iter__\<close>
  for the plans the driver iterates; a plan without these wrappers is compiled by
  \<open>produce\<close> alone.
\<close>

fun visit_observe_stream :: "(stream \<Rightarrow> exn + 'a iterator) \<Rightarrow> stream \<Rightarrow> exn + 'a uncaught" where
  "visit_observe_stream produce (ObserveStream upstream what colored) =
     (case produce upstream of
        Inl e \<Rightarrow> Inl e
      | Inr it \<Rightarrow> Inr (Observing \<lparr>ob_iterator = it, ob_what = what, ob_colored = colored,
                                 ob_yields_count = 0\<rparr>))"
| "visit_observe_stream produce stream =
     (case produce stream of Inl e \<Rightarrow> Inl e | Inr it \<Rightarrow> Inr (Bare it))"

datatype 'a driver_iterator = Uncaught "'a uncaught" | Catching "'a catching"

fun visit_catch_stream ::
  "(stream \<Rightarrow> exn + 'a iterator) \<Rightarrow> stream \<Rightarrow> exn + 'a driver_iterator" where
  "visit_catch_stream produce (CatchStream upstream classes when) =
     (case visit_observe_stream produce upstream of
        Inl e \<Rightarrow> Inl e
      | Inr up \<Rightarrow> Inr (Catching \<lparr>ca_iterator = up, ca_classes = classes, ca_when = when\<rparr>))"
| "visit_catch_stream produce stream =
     (case visit_observe_stream produce stream of Inl e \<Rightarrow> Inl e | Inr up \<Rightarrow> Inr (Uncaught up))"

definition Stream_iter :: "(stream \<Rightarrow> exn + 'a iterator) \<Rightarrow> stream \<Rightarrow> exn + 'a driver_iterator" where
  "Stream_iter produce self = visit_catch_stream produce self"

fun driver_next :: "'a driver_iterator \<Rightarrow> env \<Rightarrow> 'a outcome \<times> 'a driver_iterator \<times> env" where
  "driver_next (Uncaught up) env =
     (case uncaught_next up env of (r, up', env') \<Rightarrow> (r, Uncaught up', env'))"
| "driver_next (Catching c) env =
     (case catching_next c env of (r, c', env') \<Rightarrow> (r, Catching c', env'))"

fun driver_pending :: "'a driver_iterator \<Rightarrow> 'a iterator" where
  "driver_pending (Uncaught up) = uncaught_pending up"
| "driver_pending (Catching c) = uncaught_pending (ca_iterator c)"

subsection \<open>\<^verbatim>\<open>Stream.iterate\<close>\<close>

definition RUN_MAX_NUM_ERROR_SAMPLES :: nat where
  "RUN_MAX_NUM_ERROR_SAMPLES = 8"

text \<open>The closure \<^verbatim>\<open>register_error_sample\<close>; \<open>max_num_error_samples\<close> is the local variable
  it captures.\<close>

definition register_error_sample :: "nat \<Rightarrow> when_fn" where
  "register_error_sample max_num_error_samples error env =
     (let env = env\<lparr>errors_count := errors_count env + 1\<rparr>;
          env = (if length (error_samples env) < max_num_error_samples
                 then env\<lparr>error_samples := error_samples env @ [error]\<rparr>
                 else env)
      in (Inr True, env))"

text \<open>\<^verbatim>\<open>xs[0]\<close>.\<close>

definition getitem0 :: "'a list \<Rightarrow> exn + 'a" where
  "getitem0 xs = (case xs of
       [] \<Rightarrow> Inl (Exn IndexError [Lit ''list index out of range''])
     | x # _ \<Rightarrow> Inr x)"

lemma catching_next_shorter:
  "catching_next c env = (r, c', env') \<Longrightarrow> r \<noteq> StopIteration \<Longrightarrow>
     length (uncaught_pending (ca_iterator c')) < length (uncaught_pending (ca_iterator c))"
proof (induction "length (uncaught_pending (ca_iterator c))" arbitrary: c env rule: less_induct)
  case less
  obtain r0 up0 env0 where u: "uncaught_next (ca_iterator c) env = (r0, up0, env0)"
    by (cases "uncaught_next (ca_iterator c) env") auto
  note step = less.prems(1) [unfolded catching_next.simps [of c env] u]
  show ?case
  proof (cases r0)
    case (Yield x)
    with step less.prems(2) uncaught_next_shorter [OF u [symmetric]]
    show ?thesis by auto
  next
    case StopIteration
    with step less.prems(2) show ?thesis by auto
  next
    case (Raise e)
    have shorter: "length (uncaught_pending up0) < length (uncaught_pending (ca_iterator c))"
      using Raise uncaught_next_shorter [OF u [symmetric]] by simp
    have again: "catching_next (c\<lparr>ca_iterator := up0\<rparr>) env1 = (r, c', env') \<Longrightarrow>
        length (uncaught_pending (ca_iterator c')) < length (uncaught_pending (ca_iterator c))"
      for env1
      using less.hyps [of "c\<lparr>ca_iterator := up0\<rparr>" env1] shorter less.prems(2) by simp
    show ?thesis
    proof (cases "isinstance e (ca_classes c)")
      case False
      with step Raise shorter show ?thesis by auto
    next
      case True
      show ?thesis
      proof (cases "ca_when c")
        case None
        with step Raise True again show ?thesis by simp
      next
        case (Some pred)
        obtain w env1 where w: "pred e env0 = (w, env1)" by (cases "pred e env0") auto
        with step Raise True Some again [of env1] shorter show ?thesis
          by (cases w) (auto split: bool.splits if_splits)
      qed
    qed
  qed
qed

lemma driver_next_shorter:
  "(r, it', env') = driver_next it env \<Longrightarrow> r \<noteq> StopIteration \<Longrightarrow>
     length (driver_pending it') < length (driver_pending it)"
proof (cases it)
  case (Uncaught up)
  assume "(r, it', env') = driver_next it env" "r \<noteq> StopIteration"
  with Uncaught show ?thesis
    by (auto split: prod.splits dest: uncaught_next_shorter [OF sym])
next
  case (Catching c)
  assume "(r, it', env') = driver_next it env" "r \<noteq> StopIteration"
  with Catching show ?thesis
    by (auto split: prod.splits dest: catching_next_shorter)
qed

text \<open>The \<^verbatim>\<open>for elem in stream\<close> loop: it ends at \<^verbatim>\<open>StopIteration\<close>, and an exception that
  \<^verbatim>\<open>next\<close> raises leaves it (and \<^verbatim>\<open>iterate\<close>).\<close>

function for_loop ::
  "'a driver_iterator \<Rightarrow> env \<Rightarrow> int \<Rightarrow> 'a list \<Rightarrow> exn option \<times> 'a driver_iterator \<times> env \<times> 'a list" where
  "for_loop it env collect_limit output_samples = (case driver_next it env of
       (StopIteration, it', env') \<Rightarrow> (None, it', env', output_samples)
     | (Raise e, it', env') \<Rightarrow> (Some e, it', env', output_samples)
     | (Yield elem, it', env') \<Rightarrow>
         for_loop it' env' collect_limit
           (if int (length output_samples) < collect_limit
            then output_samples @ [elem] else output_samples))"
  by pat_completeness auto
termination
  by (relation "measure (\<lambda>(it, env, collect_limit, output_samples). length (driver_pending it))")
     (auto dest: driver_next_shorter)

declare for_loop.simps [simp del]

text \<open>
  What a call of \<^verbatim>\<open>iterate\<close> leaves behind: the list it returns or the exception it raises,
  the final values of \<^verbatim>\<open>errors_count\<close>, \<^verbatim>\<open>error_samples\<close> and the log, and the final state
  of the iterator it pulled from (none if compiling the plan raised).
  \<open>explain\<close> is the absent explanation visitor; its text is only logged.
\<close>

record run =
  outcome :: "exn + pyval list"
  final_env :: env
  final_iterator :: "pyval driver_iterator option"

definition iterate ::
  "(stream \<Rightarrow> string) \<Rightarrow> (stream \<Rightarrow> exn + pyval iterator) \<Rightarrow> log_record list
     \<Rightarrow> stream \<Rightarrow> int \<Rightarrow> int \<Rightarrow> bool \<Rightarrow> run" where
  "iterate explain produce LOGGER self collect_limit raise_if_more_errors_than fail_fast =
     (let env = \<lparr>errors_count = 0, error_samples = [], logger = LOGGER\<rparr> in
      if collect_limit < 0 then
        \<lparr>outcome = Inl (Exn ValueError [Lit ''`collect_limit` must be >= 0  but got '',
                                         Val (PyInt collect_limit), Lit ''.'']),
         final_env = env, final_iterator = None\<rparr>
      else if raise_if_more_errors_than < 0 then
        \<lparr>outcome = Inl (Exn ValueError [Lit ''`raise_if_more_errors_than` must be >= 0  but got '',
                                         Val (PyInt raise_if_more_errors_than), Lit ''.'']),
         final_env = env, final_iterator = None\<rparr>
      else
        (let max_num_error_samples = RUN_MAX_NUM_ERROR_SAMPLES;
             stream = (if \<not> isinstance_ObserveStream self
                       then Stream_observe self ''output elements'' False else self);
             stream = (if \<not> fail_fast
                       then Stream_catch stream [Exception]
                              (Some (register_error_sample max_num_error_samples))
                       else stream);
             env = emit (LogInfo [Lit (explain stream)]) env
         in case Stream_iter produce stream of
              Inl e \<Rightarrow> \<lparr>outcome = Inl e, final_env = env, final_iterator = None\<rparr>
            | Inr it \<Rightarrow> (case for_loop it env collect_limit [] of
                  (Some e, it', env', output_samples) \<Rightarrow>
                    \<lparr>outcome = Inl e, final_env = env', final_iterator = Some it'\<rparr>
                | (None, it', env', output_samples) \<Rightarrow>
                    (if errors_count env' > 0 then
                       (let env'' = emit (LogErrorSamples max_num_error_samples (error_samples env')) env'
                        in if raise_if_more_errors_than < int (errors_count env') then
                             (case getitem0 (error_samples env') of
                                Inl index_error \<Rightarrow>
                                  \<lparr>outcome = Inl index_error, final_env = env'',
                                   final_iterator = Some it'\<rparr>
                              | Inr first \<Rightarrow>
                                  \<lparr>outcome = Inl first, final_env = env'',
                                   final_iterator = Some it'\<rparr>)
                           else \<lparr>outcome = Inr output_samples, final_env = env'',
                                 final_iterator = Some it'\<rparr>)
                     else \<lparr>outcome = Inr output_samples, final_env = env',
                           final_iterator = Some it'\<rparr>))))"

section \<open>Reference functions and example inputs\<close>

text \<open>What \<^verbatim>\<open>map(f)\<close> has to produce for one upstream outcome: \<open>f x\<close> for an element
  \<open>x\<close> (an exception if \<open>f\<close> raises on \<open>x\<close>), and an upstream exception as it is.\<close>

fun mapped :: "('a \<Rightarrow> exn + 'b) \<Rightarrow> 'a pulled \<Rightarrow> 'b pulled" where
  "mapped f (Elem x) = (case f x of Inl e \<Rightarrow> Fail e | Inr y \<Rightarrow> Elem y)"
| "mapped f (Fail e) = Fail e"

text \<open>The invariant of the threaded wrapper (a pool of at least one worker; once upstream
  is known to be exhausted nothing is left in it) and the outcomes it still owes: the
  queued futures, then the image of what upstream still holds.\<close>

definition tm_inv :: "('a, 'b) threaded_mapping \<Rightarrow> bool" where
  "tm_inv t = (1 \<le> tm_n_workers t \<and> (\<not> tm_exhausted t \<or> tm_iterator t = []))"

definition tm_pending :: "('a, 'b) threaded_mapping \<Rightarrow> 'b pulled list" where
  "tm_pending t = tm_futures t @ map (mapped (tm_func t)) (tm_iterator t)"

definition example_double :: "pyval \<Rightarrow> pyval" where
  "example_double v = (case v of PyInt i \<Rightarrow> PyInt (2 * i) | _ \<Rightarrow> v)"

text \<open>The pulls a strictly sequential consumption of the iterables makes: iterable \<open>k\<close> is
  pulled once per outcome it has and once more for its \<^verbatim>\<open>StopIteration\<close>, and only then
  iterable \<open>k + 1\<close>.\<close>

fun sequential_pulls :: "nat \<Rightarrow> 'a iterator list \<Rightarrow> nat list" where
  "sequential_pulls k [] = []"
| "sequential_pulls k (it # rest) = replicate (Suc (length it)) k @ sequential_pulls (Suc k) rest"

definition example_list_factory :: "unit \<Rightarrow> pyval pyobject" where
  "example_list_factory u = Value (PyList [PyInt 1, PyInt 2, PyInt 3])"

definition example_iterator_factory :: "unit \<Rightarrow> pyval pyobject" where
  "example_iterator_factory u = IteratorObj [Elem (PyInt 1), Elem (PyInt 2), Elem (PyInt 3)]"
text \<open>The exceptions and the elements among the outcomes of an iterator, each in order.\<close>

fun errors_of :: "'a iterator \<Rightarrow> exn list" where
  "errors_of [] = []"
| "errors_of (Elem x # rest) = errors_of rest"
| "errors_of (Fail e # rest) = e # errors_of rest"

fun elements_of :: "'a iterator \<Rightarrow> 'a list" where
  "elements_of [] = []"
| "elements_of (Elem x # rest) = x # elements_of rest"
| "elements_of (Fail e # rest) = elements_of rest"

text \<open>The plan whose compiled iterator the driver's observer pulls from: \<^verbatim>\<open>iterate\<close> wraps
  \<open>self\<close> in an observer unless \<open>self\<close> is one already.\<close>

fun observed_upstream :: "stream \<Rightarrow> stream" where
  "observed_upstream (ObserveStream upstream what colored) = upstream"
| "observed_upstream self = self"

text \<open>The state agrees with an earlier one on \<^verbatim>\<open>errors_count\<close> and \<^verbatim>\<open>error_samples\<close>.\<close>

definition same_counts :: "env \<Rightarrow> env \<Rightarrow> bool" where
  "same_counts env env' =
     (errors_count env' = errors_count env \<and> error_samples env' = error_samples env)"

text \<open>The first \<open>collect_limit\<close> of the elements \<open>xs\<close>, appended to what was collected.\<close>

definition collected :: "int \<Rightarrow> 'a list \<Rightarrow> 'a list \<Rightarrow> 'a list" where
  "collected collect_limit output_samples xs =
     output_samples @ take (nat collect_limit - length output_samples) xs"

text \<open>Either no error was counted or a sample of one was kept.\<close>

definition counted_sampled :: "env \<Rightarrow> bool" where
  "counted_sampled env = (errors_count env = 0 \<or> error_samples env \<noteq> [])"

definition example_outcomes :: "pyval iterator" where
  "example_outcomes =
     [Elem (PyInt 10), Fail (Exn ZeroDivisionError [Lit ''integer division or modulo by zero'']),
      Elem (PyInt 5), Fail (Exn ValueError [Lit ''bad element'']), Elem (PyInt 3)]"

definition example_produce :: "stream \<Rightarrow> exn + pyval iterator" where
  "example_produce s = Inr example_outcomes"

definition example_explain :: "stream \<Rightarrow> string" where
  "example_explain s = ''plan''"

text \<open>Outcomes with an exception that is not an \<^verbatim>\<open>Exception\<close> (the interrupt of the
  keyboard), and outcomes with nine errors, one more than the sample capacity.\<close>

definition example_interrupted :: "pyval iterator" where
  "example_interrupted =
     [Elem (PyInt 1), Fail (Exn KeyboardInterrupt []), Elem (PyInt 2)]"

definition example_interrupted_produce :: "stream \<Rightarrow> exn + pyval iterator" where
  "example_interrupted_produce s = Inr example_interrupted"

definition example_nine_errors :: "pyval iterator" where
  "example_nine_errors =
     [Fail (Exn (UserError ''e1'') []), Fail (Exn (UserError ''e2'') []),
      Fail (Exn (UserError ''e3'') []), Elem (PyInt 1), Fail (Exn (UserError ''e4'') []),
      Fail (Exn (UserError ''e5'') []), Fail (Exn (UserError ''e6'') []),
      Fail (Exn (UserError ''e7'') []), Fail (Exn (UserError ''e8'') []),
      Fail (Exn (UserError ''e9'') []), Elem (PyInt 2)]"

definition example_nine_errors_produce :: "stream \<Rightarrow> exn + pyval iterator" where
  "example_nine_errors_produce s = Inr example_nine_errors"


section \<open>Build-time validation\<close>

lemma float_gt_not_lt: "float_gt x q \<or> float_eq x q \<Longrightarrow> \<not> float_lt x q"
  by (cases x) auto

lemma py_ge_not_lt: "py_ge c n = Inr True \<Longrightarrow> py_lt c n = Inr False"
  by (auto simp: py_ge_def py_lt_def float_gt_not_lt split: option.splits)

lemma validate_concurrency_ge: "py_ge c 1 = Inr True \<Longrightarrow> validate_concurrency c = Inr ()"
  by (simp add: validate_concurrency_def py_ge_not_lt)

lemma validate_concurrency_ValueError:
  "(\<exists>m. validate_concurrency c = Inl (Exn ValueError m)) = (py_lt c 1 = Inr True)"
  by (auto simp: validate_concurrency_def py_lt_def not_supported_def
      split: option.splits sum.splits bool.splits)

text \<open>
  \<^bold>\<open>C5\<close>. Every misuse of a builder of \<^verbatim>\<open>Stream\<close> is rejected by the builder call itself,
  which returns the exception instead of a plan node (nothing is iterated):
  \<^verbatim>\<open>map\<close>, \<^verbatim>\<open>do\<close> and \<^verbatim>\<open>flatten\<close> raise \<^verbatim>\<open>ValueError\<close> when \<^verbatim>\<open>concurrency < 1\<close>;
  \<^verbatim>\<open>batch\<close> raises \<^verbatim>\<open>ValueError\<close> when \<^verbatim>\<open>size < 1\<close>, and when \<^verbatim>\<open>size\<close> is fine and
  \<^verbatim>\<open>seconds <= 0\<close>, and raises in any case when one of the two holds (a \<^verbatim>\<open>size\<close> that
  cannot be compared raises the comparison's \<^verbatim>\<open>TypeError\<close> first);
  \<^verbatim>\<open>slow\<close> raises \<^verbatim>\<open>ValueError\<close> when \<^verbatim>\<open>frequency <= 0\<close>; and \<^verbatim>\<open>Stream(source)\<close> raises
  \<^verbatim>\<open>TypeError\<close> for every source that is not callable.
\<close>

theorem builder_misuse_rejected:
  "(py_lt c 1 = Inr True \<longrightarrow>
      (\<exists>m. Stream_map self f c = Inl (Exn ValueError m)) \<and>
      (\<exists>m. Stream_do self f c = Inl (Exn ValueError m)) \<and>
      (\<exists>m. Stream_flatten self c = Inl (Exn ValueError m)))
   \<and> (py_lt size' 1 = Inr True \<longrightarrow>
      (\<exists>m. Stream_batch self size' seconds = Inl (Exn ValueError m)))
   \<and> (py_lt size' 1 = Inr False \<and> py_le seconds 0 = Inr True \<longrightarrow>
      (\<exists>m. Stream_batch self size' seconds = Inl (Exn ValueError m)))
   \<and> (py_lt size' 1 = Inr True \<or> py_le seconds 0 = Inr True \<longrightarrow>
      isl (Stream_batch self size' seconds))
   \<and> (py_le frequency 0 = Inr True \<longrightarrow>
      (\<exists>m. Stream_slow self frequency = Inl (Exn ValueError m)))
   \<and> (\<exists>m. Stream_init (NotCallable obj) = Inl (Exn TypeError m))"
  by (auto simp: Stream_map_def Stream_do_def Stream_flatten_def validate_concurrency_def
      Stream_batch_def Stream_slow_def Stream_init_def split: sum.splits bool.splits)

theorem builder_misuse_rejected_witness:
  "py_lt (PyInt 0) 1 = Inr True
   \<and> (\<exists>m. Stream_map (Stream (\<lambda>_. IteratorObj [])) Inr (PyInt 0) = Inl (Exn ValueError m))
   \<and> (\<exists>m. Stream_do (Stream (\<lambda>_. IteratorObj [])) Inr (PyInt 0) = Inl (Exn ValueError m))
   \<and> (\<exists>m. Stream_flatten (Stream (\<lambda>_. IteratorObj [])) (PyInt 0) = Inl (Exn ValueError m))
   \<and> (\<exists>m. Stream_batch (Stream (\<lambda>_. IteratorObj [])) (PyInt 0) (PyFloat PosInf)
            = Inl (Exn ValueError m))
   \<and> py_lt (PyInt 2) 1 = Inr False \<and> py_le (PyFloat (Finite (- 1 / 2))) 0 = Inr True
   \<and> (\<exists>m. Stream_batch (Stream (\<lambda>_. IteratorObj [])) (PyInt 2) (PyFloat (Finite (- 1 / 2)))
            = Inl (Exn ValueError m))
   \<and> isl (Stream_batch (Stream (\<lambda>_. IteratorObj [])) PyNone (PyInt 0))
   \<and> py_le (PyInt 0) 0 = Inr True
   \<and> (\<exists>m. Stream_slow (Stream (\<lambda>_. IteratorObj [])) (PyInt 0) = Inl (Exn ValueError m))
   \<and> (\<exists>m. Stream_init (NotCallable (Value (PyList [PyInt 1, PyInt 2]))) = Inl (Exn TypeError m))"
proof -
  have h1: "py_lt (PyInt 0) 1 = Inr True" by (simp add: py_lt_def)
  have h2: "py_lt (PyInt 2) 1 = Inr False \<and> py_le (PyFloat (Finite (- 1 / 2))) 0 = Inr True"
    by (simp add: py_lt_def py_le_def)
  have h3: "py_lt PyNone 1 = Inr True \<or> py_le (PyInt 0) 0 = Inr True"
    by (simp add: py_le_def)
  have h4: "py_le (PyInt 0) 0 = Inr True" by (simp add: py_le_def)
  show ?thesis
    using h1 h2 h3 h4
      builder_misuse_rejected [of "PyInt 0" "Stream (\<lambda>_. IteratorObj [])" Inr "PyInt 0"
        "PyFloat PosInf" "PyInt 0" "Value (PyList [PyInt 1, PyInt 2])"]
      builder_misuse_rejected [of "PyInt 0" "Stream (\<lambda>_. IteratorObj [])" Inr "PyInt 2"
        "PyFloat (Finite (- 1 / 2))" "PyInt 0" "Value (PyList [PyInt 1, PyInt 2])"]
      builder_misuse_rejected [of "PyInt 0" "Stream (\<lambda>_. IteratorObj [])" Inr "PyNone"
        "PyInt 0" "PyInt 0" "Value (PyList [PyInt 1, PyInt 2])"]
    by blast
qed

text \<open>
  \<^bold>\<open>C10\<close>. \<^verbatim>\<open>Stream._validate_concurrency\<close> looks at the value only: every \<open>c\<close> with
  \<^verbatim>\<open>c >= 1\<close> (an \<^verbatim>\<open>int\<close>, a \<^verbatim>\<open>float\<close> such as 2.5, the boolean \<^verbatim>\<open>True\<close>) is accepted by
  \<^verbatim>\<open>map\<close>, \<^verbatim>\<open>do\<close> and \<^verbatim>\<open>flatten\<close>, which store it in the node, and a \<^verbatim>\<open>ValueError\<close> is
  raised exactly when \<^verbatim>\<open>c < 1\<close> holds. The kioss builders call \<^verbatim>\<open>sanitize_n_threads\<close>,
  which raises \<^verbatim>\<open>TypeError\<close> for every \<open>c\<close> that is not an instance of \<^verbatim>\<open>int\<close> and
  otherwise decides as the streamable builders do.
\<close>

theorem concurrency_value_only:
  "(py_ge c 1 = Inr True \<longrightarrow>
      Stream_map self f c = Inr (MapStream self f c) \<and>
      Stream_do self f c = Inr (DoStream self f c) \<and>
      Stream_flatten self c = Inr (FlattenStream self c))
   \<and> ((\<exists>m. Stream_map self f c = Inl (Exn ValueError m)) = (py_lt c 1 = Inr True))
   \<and> ((\<exists>m. Stream_do self f c = Inl (Exn ValueError m)) = (py_lt c 1 = Inr True))
   \<and> ((\<exists>m. Stream_flatten self c = Inl (Exn ValueError m)) = (py_lt c 1 = Inr True))
   \<and> (\<not> isinstance_int c \<longrightarrow>
      (\<exists>m. Pipe_map p f c = Inl (Exn TypeError m)) \<and>
      (\<exists>m. Pipe_do p f c = Inl (Exn TypeError m)) \<and>
      (\<exists>m. Pipe_flatten p c = Inl (Exn TypeError m)))
   \<and> (isinstance_int c \<and> py_ge c 1 = Inr True \<longrightarrow>
      Pipe_map p f c = Inr (MapPipe p f c) \<and>
      Pipe_do p f c = Inr (DoPipe p f c) \<and>
      Pipe_flatten p c = Inr (FlattenPipe p c))
   \<and> (isinstance_int c \<and> py_lt c 1 = Inr True \<longrightarrow>
      (\<exists>m. Pipe_map p f c = Inl (Exn ValueError m)) \<and>
      (\<exists>m. Pipe_do p f c = Inl (Exn ValueError m)) \<and>
      (\<exists>m. Pipe_flatten p c = Inl (Exn ValueError m)))"
proof -
  have a: "py_ge c 1 = Inr True \<longrightarrow>
      Stream_map self f c = Inr (MapStream self f c) \<and>
      Stream_do self f c = Inr (DoStream self f c) \<and>
      Stream_flatten self c = Inr (FlattenStream self c)"
    by (simp add: Stream_map_def Stream_do_def Stream_flatten_def validate_concurrency_ge)
  have b: "(\<exists>m. Stream_map self f c = Inl (Exn ValueError m)) = (py_lt c 1 = Inr True)"
    using validate_concurrency_ValueError [of c]
    by (auto simp: Stream_map_def split: sum.splits)
  have b2: "(\<exists>m. Stream_do self f c = Inl (Exn ValueError m)) = (py_lt c 1 = Inr True)"
    using validate_concurrency_ValueError [of c]
    by (auto simp: Stream_do_def split: sum.splits)
  have b3: "(\<exists>m. Stream_flatten self c = Inl (Exn ValueError m)) = (py_lt c 1 = Inr True)"
    using validate_concurrency_ValueError [of c]
    by (auto simp: Stream_flatten_def split: sum.splits)
  have d: "\<not> isinstance_int c \<longrightarrow>
      (\<exists>m. Pipe_map p f c = Inl (Exn TypeError m)) \<and>
      (\<exists>m. Pipe_do p f c = Inl (Exn TypeError m)) \<and>
      (\<exists>m. Pipe_flatten p c = Inl (Exn TypeError m))"
    by (simp add: Pipe_map_def Pipe_do_def Pipe_flatten_def sanitize_n_threads_def)
  have e: "isinstance_int c \<and> py_ge c 1 = Inr True \<longrightarrow>
      Pipe_map p f c = Inr (MapPipe p f c) \<and>
      Pipe_do p f c = Inr (DoPipe p f c) \<and>
      Pipe_flatten p c = Inr (FlattenPipe p c)"
    by (simp add: Pipe_map_def Pipe_do_def Pipe_flatten_def sanitize_n_threads_def py_ge_not_lt)
  have g: "isinstance_int c \<and> py_lt c 1 = Inr True \<longrightarrow>
      (\<exists>m. Pipe_map p f c = Inl (Exn ValueError m)) \<and>
      (\<exists>m. Pipe_do p f c = Inl (Exn ValueError m)) \<and>
      (\<exists>m. Pipe_flatten p c = Inl (Exn ValueError m))"
    by (simp add: Pipe_map_def Pipe_do_def Pipe_flatten_def sanitize_n_threads_def)
  from a b b2 b3 d e g show ?thesis by blast
qed

theorem concurrency_value_only_witness:
  "py_ge (PyFloat (Finite (5 / 2))) 1 = Inr True
   \<and> Stream_map (Stream (\<lambda>_. IteratorObj [])) Inr (PyFloat (Finite (5 / 2)))
       = Inr (MapStream (Stream (\<lambda>_. IteratorObj [])) Inr (PyFloat (Finite (5 / 2))))
   \<and> \<not> isinstance_int (PyFloat (Finite (5 / 2)))
   \<and> (\<exists>m. Pipe_map (SourcePipe (\<lambda>_. IteratorObj [])) Inr (PyFloat (Finite (5 / 2)))
            = Inl (Exn TypeError m))
   \<and> py_ge (PyBool True) 1 = Inr True \<and> isinstance_int (PyBool True)
   \<and> Stream_flatten (Stream (\<lambda>_. IteratorObj [])) (PyBool True)
       = Inr (FlattenStream (Stream (\<lambda>_. IteratorObj [])) (PyBool True))
   \<and> Pipe_do (SourcePipe (\<lambda>_. IteratorObj [])) Inr (PyBool True)
       = Inr (DoPipe (SourcePipe (\<lambda>_. IteratorObj [])) Inr (PyBool True))
   \<and> isinstance_int (PyInt 0) \<and> py_lt (PyInt 0) 1 = Inr True
   \<and> (\<exists>m. Pipe_flatten (SourcePipe (\<lambda>_. IteratorObj [])) (PyInt 0) = Inl (Exn ValueError m))
   \<and> (\<exists>m. Stream_do (Stream (\<lambda>_. IteratorObj [])) Inr (PyInt 0) = Inl (Exn ValueError m))"
proof -
  have h1: "py_ge (PyFloat (Finite (5 / 2))) 1 = Inr True
            \<and> \<not> isinstance_int (PyFloat (Finite (5 / 2)))"
    by (simp add: py_ge_def)
  have h2: "py_ge (PyBool True) 1 = Inr True \<and> isinstance_int (PyBool True)"
    by (simp add: py_ge_def)
  have h3: "isinstance_int (PyInt 0) \<and> py_lt (PyInt 0) 1 = Inr True"
    by (simp add: py_lt_def)
  show ?thesis
    using h1 h2 h3
      concurrency_value_only [of "PyFloat (Finite (5 / 2))" "Stream (\<lambda>_. IteratorObj [])" Inr
        "SourcePipe (\<lambda>_. IteratorObj [])"]
      concurrency_value_only [of "PyBool True" "Stream (\<lambda>_. IteratorObj [])" Inr
        "SourcePipe (\<lambda>_. IteratorObj [])"]
      concurrency_value_only [of "PyInt 0" "Stream (\<lambda>_. IteratorObj [])" Inr
        "SourcePipe (\<lambda>_. IteratorObj [])"]
    by blast
qed

section \<open>Map keeps the upstream order\<close>

lemma builtin_map_outcomes: "map_iterator_outcomes (BuiltinMap f up) = map (mapped f) up"
proof (induction up)
  case Nil
  show ?case by (subst map_iterator_outcomes.simps) (simp add: builtin_map_next_def)
next
  case (Cons p up)
  then show ?case
    by (subst map_iterator_outcomes.simps)
       (cases p; simp add: builtin_map_next_def split: sum.splits)
qed

lemma fill_futures_keeps:
  "tm_inv t \<Longrightarrow>
     tm_inv (fill_futures t) \<and> tm_pending (fill_futures t) = tm_pending t
     \<and> tm_func (fill_futures t) = tm_func t
     \<and> (tm_futures (fill_futures t) = [] \<longrightarrow> tm_iterator (fill_futures t) = [])"
proof (induction "length (tm_iterator t)" arbitrary: t rule: less_induct)
  case less
  show ?case
  proof (cases "length (tm_futures t) < tm_n_workers t \<and> \<not> tm_exhausted t")
    case False
    with less.prems show ?thesis
      by (auto simp: fill_futures_done tm_inv_def)
  next
    case True
    show ?thesis
    proof (cases "tm_iterator t")
      case Nil
      with True less.prems show ?thesis
        by (simp add: fill_futures_stop tm_inv_def tm_pending_def)
    next
      case (Cons p rest)
      show ?thesis
      proof (cases p)
        case (Elem x)
        let ?t = "t\<lparr>tm_iterator := rest, tm_futures := tm_futures t @ [submit (tm_func t) x]\<rparr>"
        have "tm_inv ?t" using less.prems True by (simp add: tm_inv_def)
        moreover have "length (tm_iterator ?t) < length (tm_iterator t)" using Cons by simp
        ultimately have "tm_inv (fill_futures ?t) \<and> tm_pending (fill_futures ?t) = tm_pending ?t
           \<and> tm_func (fill_futures ?t) = tm_func ?t
           \<and> (tm_futures (fill_futures ?t) = [] \<longrightarrow> tm_iterator (fill_futures ?t) = [])"
          using less.hyps by blast
        moreover have "tm_pending ?t = tm_pending t"
          using Cons Elem by (simp add: tm_pending_def submit_def)
        moreover have "fill_futures t = fill_futures ?t"
          using True Cons Elem by (simp add: fill_futures_elem)
        ultimately show ?thesis by simp
      next
        case (Fail e)
        let ?t = "t\<lparr>tm_iterator := rest, tm_futures := tm_futures t @ [Fail e]\<rparr>"
        have "tm_inv ?t" using less.prems True by (simp add: tm_inv_def)
        moreover have "length (tm_iterator ?t) < length (tm_iterator t)" using Cons by simp
        ultimately have "tm_inv (fill_futures ?t) \<and> tm_pending (fill_futures ?t) = tm_pending ?t
           \<and> tm_func (fill_futures ?t) = tm_func ?t
           \<and> (tm_futures (fill_futures ?t) = [] \<longrightarrow> tm_iterator (fill_futures ?t) = [])"
          using less.hyps by blast
        moreover have "tm_pending ?t = tm_pending t"
          using Cons Fail by (simp add: tm_pending_def)
        moreover have "fill_futures t = fill_futures ?t"
          using True Cons Fail by (simp add: fill_futures_fail)
        ultimately show ?thesis by simp
      qed
    qed
  qed
qed

lemma threaded_mapping_outcomes:
  "tm_inv t \<Longrightarrow> map_iterator_outcomes (ThreadedMapping t) = tm_pending t"
proof (induction "length (tm_pending t)" arbitrary: t rule: less_induct)
  case less
  let ?t = "fill_futures t"
  from fill_futures_keeps [OF less.prems]
  have inv: "tm_inv ?t" and pend: "tm_pending ?t = tm_pending t"
    and empty: "tm_futures ?t = [] \<longrightarrow> tm_iterator ?t = []"
    by simp_all
  show ?case
  proof (cases "tm_futures ?t")
    case Nil
    with empty pend have "tm_pending t = []" by (simp add: tm_pending_def)
    with Nil show ?thesis
      by (subst map_iterator_outcomes.simps) (simp add: threaded_mapping_next_def)
  next
    case (Cons future rest)
    let ?u = "?t\<lparr>tm_futures := rest\<rparr>"
    have split: "tm_pending t = future # tm_pending ?u"
      using pend Cons by (simp add: tm_pending_def)
    have "tm_inv ?u" using inv by (simp add: tm_inv_def)
    moreover have "length (tm_pending ?u) < length (tm_pending t)" using split by simp
    ultimately have "map_iterator_outcomes (ThreadedMapping ?u) = tm_pending ?u"
      using less.hyps by blast
    with Cons split show ?thesis
      by (subst map_iterator_outcomes.simps)
         (cases future; simp add: threaded_mapping_next_def)
  qed
qed

text \<open>
  \<^bold>\<open>C3\<close>. For every function \<open>f\<close>, every concurrency \<open>k \<ge> 1\<close> and every upstream
  iterator \<open>up\<close>: the builders accept \<open>k\<close>, \<^verbatim>\<open>visitMapPipe\<close> compiles the node to an
  iterator, and the outcomes of that iterator's successive \<^verbatim>\<open>next\<close> calls are, in
  upstream order, \<open>f x\<close> for each upstream element \<open>x\<close> (an exception raised by \<open>f\<close> or by
  upstream takes its place in the order). In particular, when neither upstream nor \<open>f\<close>
  raises, the iterator yields exactly \<open>g x\<close> for each upstream \<open>x\<close>, in order.
\<close>

theorem map_yields_in_upstream_order:
  assumes "1 \<le> k" and "accept upstream = Inr up"
  shows "Stream_map s f (PyInt k) = Inr (MapStream s f (PyInt k))
    \<and> Pipe_map upstream f (PyInt k) = Inr (MapPipe upstream f (PyInt k))
    \<and> (\<exists>m. visitMapPipe accept (MapPipe upstream f (PyInt k)) = Inr m
          \<and> map_iterator_outcomes m = map (mapped f) up
          \<and> ((\<forall>x. f x = Inr (g x)) \<and> up = map Elem xs
               \<longrightarrow> map_iterator_outcomes m = map (\<lambda>x. Elem (g x)) xs))"
proof -
  have lt: "py_lt (PyInt k) 1 = Inr False" using assms(1) by (simp add: py_lt_def)
  have b1: "Stream_map s f (PyInt k) = Inr (MapStream s f (PyInt k))"
    using lt by (simp add: Stream_map_def validate_concurrency_def)
  have b2: "Pipe_map upstream f (PyInt k) = Inr (MapPipe upstream f (PyInt k))"
    using lt by (simp add: Pipe_map_def sanitize_n_threads_def)
  have pure: "(\<forall>x. f x = Inr (g x)) \<and> up = map Elem xs
      \<longrightarrow> map (mapped f) up = map (\<lambda>x. Elem (g x)) xs"
    by simp
  have "\<exists>m. visitMapPipe accept (MapPipe upstream f (PyInt k)) = Inr m
          \<and> map_iterator_outcomes m = map (mapped f) up"
  proof (cases "k = 1")
    case True
    then have "visitMapPipe accept (MapPipe upstream f (PyInt k)) = Inr (BuiltinMap f up)"
      using assms(2) by (simp add: py_eq_def)
    then show ?thesis by (simp add: builtin_map_outcomes)
  next
    case False
    let ?t = "ThreadedMappingIteratorWrapper_init up f (PyInt k)"
    have v: "visitMapPipe accept (MapPipe upstream f (PyInt k)) = Inr (ThreadedMapping ?t)"
      using False assms(2) by (simp add: py_eq_def)
    have "tm_inv ?t"
      using assms(1) by (simp add: tm_inv_def ThreadedMappingIteratorWrapper_init_def)
    then have "map_iterator_outcomes (ThreadedMapping ?t) = tm_pending ?t"
      by (rule threaded_mapping_outcomes)
    also have "tm_pending ?t = map (mapped f) up"
      by (simp add: tm_pending_def ThreadedMappingIteratorWrapper_init_def)
    finally show ?thesis using v by simp
  qed
  then obtain m where m: "visitMapPipe accept (MapPipe upstream f (PyInt k)) = Inr m"
    and out: "map_iterator_outcomes m = map (mapped f) up"
    by blast
  from pure out have "(\<forall>x. f x = Inr (g x)) \<and> up = map Elem xs
      \<longrightarrow> map_iterator_outcomes m = map (\<lambda>x. Elem (g x)) xs"
    by metis
  with b1 b2 m out show ?thesis by blast
qed

theorem map_yields_in_upstream_order_witness:
  "(1::int) \<le> 3
   \<and> (\<exists>m. visitMapPipe (\<lambda>_. Inr (map Elem [PyInt 1, PyInt 2, PyInt 3, PyInt 4]))
            (MapPipe (SourcePipe (\<lambda>_. IteratorObj [])) (\<lambda>x. Inr (example_double x)) (PyInt 3)) = Inr m
        \<and> map_iterator_outcomes m = [Elem (PyInt 2), Elem (PyInt 4), Elem (PyInt 6), Elem (PyInt 8)])"
proof -
  have h: "(1::int) \<le> 3" by simp
  have a: "(\<lambda>_. Inr (map Elem [PyInt 1, PyInt 2, PyInt 3, PyInt 4])) (SourcePipe (\<lambda>_. IteratorObj []))
      = (Inr (map Elem [PyInt 1, PyInt 2, PyInt 3, PyInt 4]) :: exn + pyval iterator)"
    by simp
  show ?thesis
    using map_yields_in_upstream_order [OF h a, where s = "Stream (\<lambda>_. IteratorObj [])"
        and f = "\<lambda>x. Inr (example_double x)" and g = example_double
        and xs = "[PyInt 1, PyInt 2, PyInt 3, PyInt 4]"]
    by (auto simp: example_double_def)
qed

section \<open>Chain concatenates, strictly left to right\<close>

lemma chain_run_Nil: "chain_run \<lparr>ch_dropped = k, ch_iterables = []\<rparr> = ([], [])"
  by (subst chain_run.simps) (simp add: chain_next_def)

lemma chain_run_Cons:
  "chain_run \<lparr>ch_dropped = k, ch_iterables = it # rest\<rparr> =
     (it @ fst (chain_run \<lparr>ch_dropped = Suc k, ch_iterables = rest\<rparr>),
      replicate (Suc (length it)) k @ snd (chain_run \<lparr>ch_dropped = Suc k, ch_iterables = rest\<rparr>))"
proof (induction it)
  case Nil
  show ?case
    by (subst chain_run.simps, subst (3 4) chain_run.simps)
       (simp add: chain_next_def split: prod.splits outcome.splits)
next
  case (Cons p it)
  then show ?case
    by (subst chain_run.simps) (cases p; simp add: chain_next_def split: prod.splits)
qed

lemma chain_run_sequential:
  "chain_run \<lparr>ch_dropped = k, ch_iterables = its\<rparr> = (concat its, sequential_pulls k its)"
  by (induction its arbitrary: k) (simp_all add: chain_run_Nil chain_run_Cons)

text \<open>
  \<^bold>\<open>C4\<close>. For all plans \<open>a\<close>, \<open>b\<close>, \<open>c\<close> that compile to the iterators \<open>ta\<close>, \<open>tb\<close>, \<open>tc\<close>:
  \<^verbatim>\<open>visitChainPipe\<close> compiles \<^verbatim>\<open>a.chain(b, c)\<close> to an \<^verbatim>\<open>itertools.chain\<close> whose successive
  outcomes are those of \<open>ta\<close>, then \<open>tb\<close>, then \<open>tc\<close>, and the pulls it makes are all the
  pulls of \<open>ta\<close> (the last one answered by \<^verbatim>\<open>StopIteration\<close>), then all those of \<open>tb\<close>,
  then all those of \<open>tc\<close>: no iterator is pulled before its predecessor is exhausted.
\<close>

theorem chain_concatenates_in_order:
  assumes "accept a = Inr ta"
    and "visitor_slot = Some (Concrete accept')"
    and "accept' b = Inr tb" and "accept' c = Inr tc"
  shows "Stream_chain sa [sb, sc] = ChainStream sa [sb, sc]
    \<and> (\<exists>ch. visitChainPipe visitor_slot accept (Pipe_chain a [b, c]) = Inr ch
          \<and> fst (chain_run ch) = ta @ tb @ tc
          \<and> snd (chain_run ch) =
              replicate (Suc (length ta)) 0 @ replicate (Suc (length tb)) 1
                @ replicate (Suc (length tc)) 2)"
proof -
  have "visitChainPipe visitor_slot accept (Pipe_chain a [b, c])
      = Inr (itertools_chain [ta, tb, tc])"
    using assms by (simp add: Pipe_chain_def Pipe_iter_def)
  moreover have "chain_run (itertools_chain [ta, tb, tc])
      = (concat [ta, tb, tc], sequential_pulls 0 [ta, tb, tc])"
    unfolding itertools_chain_def by (rule chain_run_sequential)
  ultimately show ?thesis
    by (simp add: Stream_chain_def numeral_2_eq_2)
qed

theorem chain_concatenates_in_order_witness:
  "\<exists>ch. visitChainPipe (Some (Concrete visitSourcePipe)) visitSourcePipe
          (Pipe_chain (SourcePipe example_iterator_factory)
             [SourcePipe (\<lambda>_. IteratorObj []), SourcePipe example_iterator_factory]) = Inr ch
      \<and> fst (chain_run ch) =
          [Elem (PyInt 1), Elem (PyInt 2), Elem (PyInt 3), Elem (PyInt 1), Elem (PyInt 2), Elem (PyInt 3)]
      \<and> snd (chain_run ch) = [0, 0, 0, 0, 1, 2, 2, 2, 2]"
proof -
  have a: "visitSourcePipe (SourcePipe example_iterator_factory)
      = Inr [Elem (PyInt 1), Elem (PyInt 2), Elem (PyInt 3)]"
    by (simp add: example_iterator_factory_def duck_check_type_is_iterator_def)
  have b: "visitSourcePipe (SourcePipe (\<lambda>_. IteratorObj [])) = Inr []"
    by (simp add: duck_check_type_is_iterator_def)
  show ?thesis
    using chain_concatenates_in_order [where accept = visitSourcePipe
        and accept' = visitSourcePipe and a = "SourcePipe example_iterator_factory"
        and b = "SourcePipe (\<lambda>_. IteratorObj [])" and c = "SourcePipe example_iterator_factory"
        and visitor_slot = "Some (Concrete visitSourcePipe)", OF a refl b a]
    by (simp add: numeral_2_eq_2 numeral_3_eq_3)
qed

section \<open>The source check\<close>

text \<open>
  \<^bold>\<open>C6\<close>, as the claim states it, fails: the check is made by \<^verbatim>\<open>visitSourcePipe\<close>, an
  ordinary function that runs when the plan is compiled (\<^verbatim>\<open>iter(pipe)\<close>). For a factory
  that returns a list the \<^verbatim>\<open>TypeError\<close> is the result of the compilation itself: no
  producer is returned, so the error is not raised by a first pull but before any pull.
\<close>

theorem source_check_at_first_pull_counterexample:
  "visitSourcePipe (SourcePipe example_list_factory) =
     Inl (Exn TypeError
       [Lit ''source must be a callable returning an iterator (implements __iter__ and __next__ methods), but the object resulting from a call to source() was not an iterator: got '',
        Lit [CHR 0x27], Val (PyList [PyInt 1, PyInt 2, PyInt 3]), Lit [CHR 0x27],
        Lit '' of type '', Ty ListT, Lit ''.''])
   \<and> Pipe_iter (Some (Concrete visitSourcePipe)) (SourcePipe example_list_factory)
       = visitSourcePipe (SourcePipe example_list_factory)"
  by (simp add: example_list_factory_def duck_check_type_is_iterator_def Pipe_iter_def)

text \<open>
  \<^bold>\<open>C6\<close>, amended. Building the source node raises nothing for any callable. If the
  factory returns an object that is not an iterator, compiling the node (the call of
  \<^verbatim>\<open>visitSourcePipe\<close> made by \<^verbatim>\<open>iter(pipe)\<close>, before any element is pulled) raises a
  \<^verbatim>\<open>TypeError\<close> whose message holds the offending value and its type. If the factory
  returns an iterator, compiling raises nothing and returns that very iterator.
\<close>

theorem source_check_when_compiled:
  "SourcePipe_init (Callable source) = Inr (SourcePipe source)
   \<and> Pipe_iter (Some (Concrete visitSourcePipe)) (SourcePipe source)
       = visitSourcePipe (SourcePipe source)
   \<and> (source () = Value v \<longrightarrow>
        (\<exists>m. visitSourcePipe (SourcePipe source) = Inl (Exn TypeError m)
           \<and> Val v \<in> set m \<and> Ty (type_of v) \<in> set m))
   \<and> (source () = IteratorObj it \<longrightarrow> visitSourcePipe (SourcePipe source) = Inr it)"
  by (simp add: SourcePipe_init_def duck_check_type_is_iterator_def Pipe_iter_def)

theorem source_check_when_compiled_witness:
  "example_list_factory () = Value (PyList [PyInt 1, PyInt 2, PyInt 3])
   \<and> (\<exists>m. visitSourcePipe (SourcePipe example_list_factory) = Inl (Exn TypeError m)
         \<and> Val (PyList [PyInt 1, PyInt 2, PyInt 3]) \<in> set m \<and> Ty ListT \<in> set m)
   \<and> example_iterator_factory () = IteratorObj [Elem (PyInt 1), Elem (PyInt 2), Elem (PyInt 3)]
   \<and> visitSourcePipe (SourcePipe example_iterator_factory)
       = Inr [Elem (PyInt 1), Elem (PyInt 2), Elem (PyInt 3)]"
proof -
  have h1: "example_list_factory () = Value (PyList [PyInt 1, PyInt 2, PyInt 3])"
    by (simp add: example_list_factory_def)
  have h2: "example_iterator_factory () = IteratorObj [Elem (PyInt 1), Elem (PyInt 2), Elem (PyInt 3)]"
    by (simp add: example_iterator_factory_def)
  show ?thesis
    using h1 h2
      source_check_when_compiled [of example_list_factory "PyList [PyInt 1, PyInt 2, PyInt 3]"
        "[Elem (PyInt 1), Elem (PyInt 2), Elem (PyInt 3)]"]
      source_check_when_compiled [of example_iterator_factory "PyList [PyInt 1, PyInt 2, PyInt 3]"
        "[Elem (PyInt 1), Elem (PyInt 2), Elem (PyInt 3)]"]
    by simp
qed

section \<open>The colour flag of the log operator\<close>



section \<open>The driver\<close>

lemma same_counts_refl: "same_counts env env"
  by (simp add: same_counts_def)

lemma same_counts_emit: "same_counts env (emit entry env)"
  by (simp add: same_counts_def emit_def)

lemma uncaught_next_stop:
  "uncaught_pending up = [] \<Longrightarrow>
     \<exists>up' env'. uncaught_next up env = (StopIteration, up', env')
       \<and> uncaught_pending up' = [] \<and> same_counts env env'"
  by (cases up) (auto simp: observing_next_def same_counts_refl same_counts_emit)

lemma uncaught_next_elem:
  "uncaught_pending up = Elem x # rest \<Longrightarrow>
     \<exists>up' env'. uncaught_next up env = (Yield x, up', env')
       \<and> uncaught_pending up' = rest \<and> same_counts env env'"
  by (cases up) (auto simp: observing_next_def Let_def same_counts_refl same_counts_emit)

lemma uncaught_next_fail:
  "uncaught_pending up = Fail e # rest \<Longrightarrow>
     \<exists>up'. uncaught_next up env = (Raise e, up', env) \<and> uncaught_pending up' = rest"
  by (cases up) (auto simp: observing_next_def)

lemma collected_step:
  "collected limit (if int (length out) < limit then out @ [x] else out) xs
     = collected limit out (x # xs)"
proof (cases "int (length out) < limit")
  case True
  then have "nat limit - length out = Suc (nat limit - Suc (length out))" by linarith
  with True show ?thesis by (simp add: collected_def)
next
  case False
  then have "nat limit - length out = 0" by linarith
  with False show ?thesis by (simp add: collected_def)
qed

lemma for_loop_uncaught_clean:
  "uncaught_pending up = tr \<Longrightarrow> errors_of tr = [] \<Longrightarrow>
     \<exists>up' env'. for_loop (Uncaught up) env limit out
         = (None, Uncaught up', env', collected limit out (elements_of tr))
       \<and> uncaught_pending up' = [] \<and> same_counts env env'"
proof (induction tr arbitrary: up env out)
  case Nil
  from uncaught_next_stop [OF Nil(1), of env] obtain up' env' where
    "uncaught_next up env = (StopIteration, up', env')" "uncaught_pending up' = []"
    "same_counts env env'" by blast
  then show ?case
    by (subst for_loop.simps) (simp add: collected_def)
next
  case (Cons p tr)
  from Cons.prems(2) obtain x where p: "p = Elem x" by (cases p) auto
  from uncaught_next_elem [of up x tr env] Cons.prems(1) p obtain up1 env1 where
    n: "uncaught_next up env = (Yield x, up1, env1)" and u1: "uncaught_pending up1 = tr"
    and s1: "same_counts env env1" by blast
  from Cons.prems(2) p have "errors_of tr = []" by simp
  from Cons.IH [OF u1 this, of env1 "if int (length out) < limit then out @ [x] else out"]
  obtain up' env' where
    "for_loop (Uncaught up1) env1 limit (if int (length out) < limit then out @ [x] else out)
       = (None, Uncaught up', env',
          collected limit (if int (length out) < limit then out @ [x] else out) (elements_of tr))"
    "uncaught_pending up' = []" "same_counts env1 env'" by blast
  with n s1 p show ?case
    by (subst for_loop.simps) (auto simp: collected_step same_counts_def)
qed

lemma for_loop_uncaught_error:
  "uncaught_pending up = pre @ Fail e # post \<Longrightarrow> errors_of pre = [] \<Longrightarrow>
     \<exists>up' env'. for_loop (Uncaught up) env limit out
         = (Some e, Uncaught up', env', collected limit out (elements_of pre))
       \<and> uncaught_pending up' = post \<and> same_counts env env'"
proof (induction pre arbitrary: up env out)
  case Nil
  from uncaught_next_fail [of up e post env] Nil(1) obtain up' where
    "uncaught_next up env = (Raise e, up', env)" "uncaught_pending up' = post" by auto
  then show ?case
    by (subst for_loop.simps) (simp add: collected_def same_counts_refl)
next
  case (Cons p pre)
  from Cons.prems(2) obtain x where p: "p = Elem x" by (cases p) auto
  from uncaught_next_elem [of up x "pre @ Fail e # post" env] Cons.prems(1) p obtain up1 env1 where
    n: "uncaught_next up env = (Yield x, up1, env1)"
    and u1: "uncaught_pending up1 = pre @ Fail e # post"
    and s1: "same_counts env env1" by auto
  from Cons.prems(2) p have "errors_of pre = []" by simp
  from Cons.IH [OF u1 this, of env1 "if int (length out) < limit then out @ [x] else out"]
  obtain up' env' where
    "for_loop (Uncaught up1) env1 limit (if int (length out) < limit then out @ [x] else out)
       = (Some e, Uncaught up', env',
          collected limit (if int (length out) < limit then out @ [x] else out) (elements_of pre))"
    "uncaught_pending up' = post" "same_counts env1 env'" by blast
  with n s1 p show ?case
    by (subst for_loop.simps) (auto simp: collected_step same_counts_def)
qed

lemma register_error_sample_result:
  "register_error_sample m e env =
     (Inr True, env\<lparr>errors_count := errors_count env + 1,
                     error_samples := (if length (error_samples env) < m
                                       then error_samples env @ [e] else error_samples env)\<rparr>)"
  by (simp add: register_error_sample_def Let_def)

lemma catching_next_stop:
  "uncaught_pending (ca_iterator c) = [] \<Longrightarrow>
     \<exists>up' env'. catching_next c env = (StopIteration, c\<lparr>ca_iterator := up'\<rparr>, env')
       \<and> uncaught_pending up' = [] \<and> same_counts env env'"
  using uncaught_next_stop [of "ca_iterator c" env]
  by (subst catching_next.simps) auto

lemma catching_next_elem:
  "uncaught_pending (ca_iterator c) = Elem x # rest \<Longrightarrow>
     \<exists>up' env'. catching_next c env = (Yield x, c\<lparr>ca_iterator := up'\<rparr>, env')
       \<and> uncaught_pending up' = rest \<and> same_counts env env'"
  using uncaught_next_elem [of "ca_iterator c" x rest env]
  by (subst catching_next.simps) auto

lemma catching_next_swallow:
  "uncaught_pending (ca_iterator c) = Fail e # rest \<Longrightarrow> isinstance e (ca_classes c) \<Longrightarrow>
   ca_when c = Some (register_error_sample m) \<Longrightarrow>
     \<exists>up'. uncaught_pending up' = rest
       \<and> catching_next c env
           = catching_next (c\<lparr>ca_iterator := up'\<rparr>) (snd (register_error_sample m e env))"
  using uncaught_next_fail [of "ca_iterator c" e rest env]
  by (subst catching_next.simps) (auto simp: register_error_sample_result)

lemma for_loop_catching_cong:
  "catching_next c env = catching_next c2 env2 \<Longrightarrow>
     for_loop (Catching c) env limit out = for_loop (Catching c2) env2 limit out"
  by (subst for_loop.simps, subst (2) for_loop.simps) simp

lemma samples_step:
  "(if length s < m then s @ [e] else s) @ take (m - length (if length s < m then s @ [e] else s)) es
     = s @ take (m - length s) (e # es)"
proof (cases "length s < m")
  case True
  then have "m - length s = Suc (m - Suc (length s))" by linarith
  with True show ?thesis by simp
next
  case False
  then show ?thesis by simp
qed

lemma for_loop_catching:
  "uncaught_pending (ca_iterator c) = tr \<Longrightarrow> ca_classes c = classes \<Longrightarrow>
   ca_when c = Some (register_error_sample m) \<Longrightarrow>
   list_all (\<lambda>e. isinstance e classes) (errors_of tr) \<Longrightarrow>
     \<exists>c' env'. for_loop (Catching c) env limit out
         = (None, Catching c', env', collected limit out (elements_of tr))
       \<and> uncaught_pending (ca_iterator c') = []
       \<and> errors_count env' = errors_count env + length (errors_of tr)
       \<and> error_samples env'
           = error_samples env @ take (m - length (error_samples env)) (errors_of tr)"
proof (induction tr arbitrary: c env out)
  case Nil
  from catching_next_stop [OF Nil(1), of env] obtain up' env' where
    "catching_next c env = (StopIteration, c\<lparr>ca_iterator := up'\<rparr>, env')"
    "uncaught_pending up' = []" "same_counts env env'" by blast
  then show ?case
    by (subst for_loop.simps) (simp add: collected_def same_counts_def)
next
  case (Cons p tr)
  show ?case
  proof (cases p)
    case (Elem x)
    from catching_next_elem [of c x tr env] Cons.prems(1) Elem obtain up1 env1 where
      n: "catching_next c env = (Yield x, c\<lparr>ca_iterator := up1\<rparr>, env1)"
      and u1: "uncaught_pending up1 = tr" and s1: "same_counts env env1" by blast
    let ?c = "c\<lparr>ca_iterator := up1\<rparr>"
    let ?out = "if int (length out) < limit then out @ [x] else out"
    have "uncaught_pending (ca_iterator ?c) = tr" "ca_classes ?c = classes"
      "ca_when ?c = Some (register_error_sample m)"
      "list_all (\<lambda>e. isinstance e classes) (errors_of tr)"
      using u1 Cons.prems Elem by simp_all
    from Cons.IH [OF this, of env1 ?out] obtain c' env' where
      "for_loop (Catching ?c) env1 limit ?out
         = (None, Catching c', env', collected limit ?out (elements_of tr))"
      "uncaught_pending (ca_iterator c') = []"
      "errors_count env' = errors_count env1 + length (errors_of tr)"
      "error_samples env'
         = error_samples env1 @ take (m - length (error_samples env1)) (errors_of tr)"
      by blast
    with n s1 Elem show ?thesis
      by (subst for_loop.simps) (auto simp: collected_step same_counts_def)
  next
    case (Fail e)
    from Cons.prems(4) Fail have inst: "isinstance e (ca_classes c)"
      and later: "list_all (\<lambda>e. isinstance e classes) (errors_of tr)"
      using Cons.prems(2) by simp_all
    let ?env = "snd (register_error_sample m e env)"
    from catching_next_swallow [OF _ inst Cons.prems(3), of tr env] Cons.prems(1) Fail
    obtain up1 where u1: "uncaught_pending up1 = tr"
      and n: "catching_next c env = catching_next (c\<lparr>ca_iterator := up1\<rparr>) ?env" by auto
    let ?c = "c\<lparr>ca_iterator := up1\<rparr>"
    have "uncaught_pending (ca_iterator ?c) = tr" "ca_classes ?c = classes"
      "ca_when ?c = Some (register_error_sample m)"
      using u1 Cons.prems by simp_all
    from Cons.IH [OF this later, of ?env out] obtain c' env' where
      "for_loop (Catching ?c) ?env limit out
         = (None, Catching c', env', collected limit out (elements_of tr))"
      "uncaught_pending (ca_iterator c') = []"
      "errors_count env' = errors_count ?env + length (errors_of tr)"
      "error_samples env'
         = error_samples ?env @ take (m - length (error_samples ?env)) (errors_of tr)"
      by blast
    with for_loop_catching_cong [OF n, of limit out] Fail show ?thesis
      by (auto simp: register_error_sample_result samples_step)
  qed
qed

lemma Stream_iter_deferred:
  "produce (observed_upstream self) = Inr tr \<Longrightarrow>
     \<exists>ob. Stream_iter produce
            (Stream_catch (if \<not> isinstance_ObserveStream self
                           then Stream_observe self what False else self) classes pred)
          = Inr (Catching \<lparr>ca_iterator = Observing ob, ca_classes = classes, ca_when = pred\<rparr>)
        \<and> ob_iterator ob = tr"
  by (cases self) (auto simp: Stream_iter_def Stream_catch_def Stream_observe_def)

lemma Stream_iter_fail_fast:
  "produce (observed_upstream self) = Inr tr \<Longrightarrow>
     \<exists>ob. Stream_iter produce
            (if \<not> isinstance_ObserveStream self then Stream_observe self what False else self)
          = Inr (Uncaught (Observing ob))
        \<and> ob_iterator ob = tr"
  by (cases self) (auto simp: Stream_iter_def Stream_observe_def)

lemma iterate_deferred:
  assumes tr: "produce (observed_upstream self) = Inr tr"
    and exc: "list_all (\<lambda>e. isinstance e [Exception]) (errors_of tr)"
    and limit: "0 \<le> collect_limit" and thr: "0 \<le> raise_if_more_errors_than"
  shows "\<exists>it. final_iterator (iterate explain produce LOGGER self collect_limit
                  raise_if_more_errors_than False) = Some it
      \<and> driver_pending it = []
      \<and> errors_count (final_env (iterate explain produce LOGGER self collect_limit
                  raise_if_more_errors_than False)) = length (errors_of tr)
      \<and> error_samples (final_env (iterate explain produce LOGGER self collect_limit
                  raise_if_more_errors_than False)) = take 8 (errors_of tr)
      \<and> outcome (iterate explain produce LOGGER self collect_limit
                  raise_if_more_errors_than False)
          = (if raise_if_more_errors_than < int (length (errors_of tr))
             then (case getitem0 (errors_of tr) of Inl ie \<Rightarrow> Inl ie | Inr first \<Rightarrow> Inl first)
             else Inr (take (nat collect_limit) (elements_of tr)))"
proof -
  let ?pred = "Some (register_error_sample RUN_MAX_NUM_ERROR_SAMPLES)"
  let ?stream = "Stream_catch (if \<not> isinstance_ObserveStream self
                    then Stream_observe self ''output elements'' False else self) [Exception] ?pred"
  let ?env = "emit (LogInfo [Lit (explain ?stream)])
                \<lparr>errors_count = 0, error_samples = [], logger = LOGGER\<rparr>"
  from Stream_iter_deferred [where produce = produce and self = self
      and what = "''output elements''" and classes = "[Exception]" and pred = ?pred, OF tr]
  obtain ob where it: "Stream_iter produce ?stream
        = Inr (Catching \<lparr>ca_iterator = Observing ob, ca_classes = [Exception], ca_when = ?pred\<rparr>)"
    and ob: "ob_iterator ob = tr" by blast
  let ?c = "\<lparr>ca_iterator = Observing ob, ca_classes = [Exception], ca_when = ?pred\<rparr>"
  have "uncaught_pending (ca_iterator ?c) = tr" "ca_classes ?c = [Exception]"
    "ca_when ?c = Some (register_error_sample RUN_MAX_NUM_ERROR_SAMPLES)"
    using ob by simp_all
  from for_loop_catching [OF this exc, of ?env collect_limit "[]"]
  obtain c' env' where loop: "for_loop (Catching ?c) ?env collect_limit []
        = (None, Catching c', env', collected collect_limit [] (elements_of tr))"
    and exh: "uncaught_pending (ca_iterator c') = []"
    and count: "errors_count env' = errors_count ?env + length (errors_of tr)"
    and samples: "error_samples env'
        = error_samples ?env @ take (RUN_MAX_NUM_ERROR_SAMPLES - length (error_samples ?env)) (errors_of tr)"
    by blast
  have count': "errors_count env' = length (errors_of tr)"
    using count by (simp add: emit_def)
  have samples': "error_samples env' = take 8 (errors_of tr)"
    using samples by (simp add: emit_def RUN_MAX_NUM_ERROR_SAMPLES_def)
  have first: "getitem0 (take 8 (errors_of tr)) = getitem0 (errors_of tr)"
    by (cases "errors_of tr") (simp_all add: getitem0_def)
  have nonneg: "\<not> collect_limit < 0" "\<not> raise_if_more_errors_than < 0"
    using limit thr by simp_all
  show ?thesis
    unfolding iterate_def Let_def
    using nonneg it loop exh count' samples' first thr
    by (cases "errors_of tr")
       (auto simp: collected_def emit_def getitem0_def split: sum.splits)
qed

lemma iterate_fail_fast_error:
  assumes tr: "produce (observed_upstream self) = Inr (pre @ Fail e # post)"
    and pre: "errors_of pre = []"
    and limit: "0 \<le> collect_limit" and thr: "0 \<le> raise_if_more_errors_than"
  shows "\<exists>up. final_iterator (iterate explain produce LOGGER self collect_limit
                  raise_if_more_errors_than True) = Some (Uncaught up)
      \<and> uncaught_pending up = post
      \<and> errors_count (final_env (iterate explain produce LOGGER self collect_limit
                  raise_if_more_errors_than True)) = 0
      \<and> error_samples (final_env (iterate explain produce LOGGER self collect_limit
                  raise_if_more_errors_than True)) = []
      \<and> outcome (iterate explain produce LOGGER self collect_limit
                  raise_if_more_errors_than True) = Inl e"
proof -
  let ?stream = "if \<not> isinstance_ObserveStream self
                   then Stream_observe self ''output elements'' False else self"
  let ?env = "emit (LogInfo [Lit (explain ?stream)])
                \<lparr>errors_count = 0, error_samples = [], logger = LOGGER\<rparr>"
  from Stream_iter_fail_fast [where produce = produce and self = self
      and what = "''output elements''", OF tr]
  obtain ob where it: "Stream_iter produce ?stream = Inr (Uncaught (Observing ob))"
    and ob: "ob_iterator ob = pre @ Fail e # post" by blast
  have "uncaught_pending (Observing ob) = pre @ Fail e # post" using ob by simp
  from for_loop_uncaught_error [OF this pre, of ?env collect_limit "[]"]
  obtain up' env' where loop: "for_loop (Uncaught (Observing ob)) ?env collect_limit []
        = (Some e, Uncaught up', env', collected collect_limit [] (elements_of pre))"
    and rest: "uncaught_pending up' = post" and same: "same_counts ?env env'"
    by blast
  have nonneg: "\<not> collect_limit < 0" "\<not> raise_if_more_errors_than < 0"
    using limit thr by simp_all
  show ?thesis
    unfolding iterate_def Let_def
    using nonneg it loop rest same
    by (auto simp: same_counts_def emit_def)
qed

lemma iterate_fail_fast_clean:
  assumes tr: "produce (observed_upstream self) = Inr tr"
    and clean: "errors_of tr = []"
    and limit: "0 \<le> collect_limit" and thr: "0 \<le> raise_if_more_errors_than"
  shows "\<exists>up. final_iterator (iterate explain produce LOGGER self collect_limit
                  raise_if_more_errors_than True) = Some (Uncaught up)
      \<and> uncaught_pending up = []
      \<and> errors_count (final_env (iterate explain produce LOGGER self collect_limit
                  raise_if_more_errors_than True)) = 0
      \<and> outcome (iterate explain produce LOGGER self collect_limit
                  raise_if_more_errors_than True) = Inr (take (nat collect_limit) (elements_of tr))"
proof -
  let ?stream = "if \<not> isinstance_ObserveStream self
                   then Stream_observe self ''output elements'' False else self"
  let ?env = "emit (LogInfo [Lit (explain ?stream)])
                \<lparr>errors_count = 0, error_samples = [], logger = LOGGER\<rparr>"
  from Stream_iter_fail_fast [where produce = produce and self = self
      and what = "''output elements''", OF tr]
  obtain ob where it: "Stream_iter produce ?stream = Inr (Uncaught (Observing ob))"
    and ob: "ob_iterator ob = tr" by blast
  have "uncaught_pending (Observing ob) = tr" using ob by simp
  from for_loop_uncaught_clean [OF this clean, of ?env collect_limit "[]"]
  obtain up' env' where loop: "for_loop (Uncaught (Observing ob)) ?env collect_limit []
        = (None, Uncaught up', env', collected collect_limit [] (elements_of tr))"
    and rest: "uncaught_pending up' = []" and same: "same_counts ?env env'"
    by blast
  have nonneg: "\<not> collect_limit < 0" "\<not> raise_if_more_errors_than < 0"
    using limit thr by simp_all
  show ?thesis
    unfolding iterate_def Let_def
    using nonneg it loop rest same
    by (auto simp: same_counts_def emit_def collected_def)
qed

lemma uncaught_next_counts: "uncaught_next up env = (r, up', env') \<Longrightarrow> same_counts env env'"
  by (cases up; cases "uncaught_pending up" rule: next_it.cases)
     (auto simp: observing_next_def Let_def same_counts_refl same_counts_emit)

lemma register_counted_sampled:
  "1 \<le> m \<Longrightarrow> counted_sampled (snd (register_error_sample m e env))"
  by (cases "error_samples env") (auto simp: register_error_sample_result counted_sampled_def)

lemma catching_next_counted_sampled:
  "ca_when c = Some (register_error_sample m) \<Longrightarrow> 1 \<le> m \<Longrightarrow> counted_sampled env \<Longrightarrow>
   catching_next c env = (r, c', env') \<Longrightarrow>
     counted_sampled env' \<and> ca_when c' = Some (register_error_sample m)"
proof (induction "length (uncaught_pending (ca_iterator c))" arbitrary: c env rule: less_induct)
  case less
  obtain r0 up0 env0 where u: "uncaught_next (ca_iterator c) env = (r0, up0, env0)"
    by (cases "uncaught_next (ca_iterator c) env") auto
  from uncaught_next_counts [OF u] less.prems(3) have cs0: "counted_sampled env0"
    by (simp add: same_counts_def counted_sampled_def)
  note step = less.prems(4) [unfolded catching_next.simps [of c env] u]
  show ?case
  proof (cases r0)
    case (Yield x)
    with step cs0 less.prems(1) show ?thesis by auto
  next
    case StopIteration
    with step cs0 less.prems(1) show ?thesis by auto
  next
    case (Raise e)
    have shorter: "length (uncaught_pending up0) < length (uncaught_pending (ca_iterator c))"
      using Raise uncaught_next_shorter [OF u [symmetric]] by simp
    show ?thesis
    proof (cases "isinstance e (ca_classes c)")
      case False
      with step Raise cs0 less.prems(1) show ?thesis by auto
    next
      case True
      let ?env = "snd (register_error_sample m e env0)"
      from step Raise True less.prems(1)
      have again: "catching_next (c\<lparr>ca_iterator := up0\<rparr>) ?env = (r, c', env')"
        by (simp add: register_error_sample_result)
      from less.hyps [of "c\<lparr>ca_iterator := up0\<rparr>" ?env] shorter less.prems(1,2) again
        register_counted_sampled [OF less.prems(2), of e env0]
      show ?thesis by simp
    qed
  qed
qed

lemma for_loop_counted_sampled:
  "(\<And>c. it = Catching c \<Longrightarrow> ca_when c = Some (register_error_sample m)) \<Longrightarrow> 1 \<le> m \<Longrightarrow>
   counted_sampled env \<Longrightarrow> for_loop it env limit out = (res, it', env', out') \<Longrightarrow>
     counted_sampled env'"
proof (induction "length (driver_pending it)" arbitrary: it env out rule: less_induct)
  case less
  obtain r0 it0 env0 where d: "driver_next it env = (r0, it0, env0)"
    by (cases "driver_next it env") auto
  have cs0: "counted_sampled env0"
    and shape: "\<And>c. it0 = Catching c \<Longrightarrow> ca_when c = Some (register_error_sample m)"
  proof -
    show "counted_sampled env0"
    proof (cases it)
      case (Uncaught up)
      with d obtain up' where "uncaught_next up env = (r0, up', env0)"
        by (auto split: prod.splits)
      from uncaught_next_counts [OF this] less.prems(3) show ?thesis
        by (simp add: same_counts_def counted_sampled_def)
    next
      case (Catching c)
      with d obtain c' where "catching_next c env = (r0, c', env0)"
        by (auto split: prod.splits)
      from catching_next_counted_sampled [OF less.prems(1) [OF Catching] less.prems(2,3) this]
      show ?thesis by simp
    qed
    show "ca_when c = Some (register_error_sample m)" if "it0 = Catching c" for c
    proof (cases it)
      case (Uncaught up)
      with d that show ?thesis by (auto split: prod.splits)
    next
      case (Catching c1)
      with d that have "catching_next c1 env = (r0, c, env0)"
        by (auto split: prod.splits)
      from catching_next_counted_sampled [OF less.prems(1) [OF Catching] less.prems(2,3) this]
      show ?thesis by simp
    qed
  qed
  note step = less.prems(4) [unfolded for_loop.simps [of it env limit out] d]
  show ?case
  proof (cases r0)
    case StopIteration
    with step cs0 show ?thesis by auto
  next
    case (Raise e)
    with step cs0 show ?thesis by auto
  next
    case (Yield x)
    with driver_next_shorter [OF d [symmetric]]
    have "length (driver_pending it0) < length (driver_pending it)" by simp
    from less.hyps [OF this shape less.prems(2) cs0] step Yield
    show ?thesis by simp
  qed
qed

lemma Stream_iter_shape:
  "Stream_iter produce
     (if \<not> fail_fast
      then Stream_catch (if \<not> isinstance_ObserveStream self
                         then Stream_observe self what False else self) classes (Some pred)
      else (if \<not> isinstance_ObserveStream self then Stream_observe self what False else self))
     = Inr it \<Longrightarrow> it = Catching c \<Longrightarrow> ca_when c = Some pred"
  by (cases self; cases fail_fast)
     (auto simp: Stream_iter_def Stream_catch_def Stream_observe_def split: sum.splits)

lemma iterate_counted_sampled:
  "counted_sampled (final_env (iterate explain produce LOGGER self collect_limit
      raise_if_more_errors_than fail_fast))"
proof -
  let ?stream0 = "if \<not> isinstance_ObserveStream self
                    then Stream_observe self ''output elements'' False else self"
  let ?stream = "if \<not> fail_fast
                 then Stream_catch ?stream0 [Exception]
                        (Some (register_error_sample RUN_MAX_NUM_ERROR_SAMPLES))
                 else ?stream0"
  let ?env0 = "\<lparr>errors_count = 0, error_samples = [], logger = LOGGER\<rparr>"
  let ?env = "emit (LogInfo [Lit (explain ?stream)]) ?env0"
  have cs0: "counted_sampled ?env0" "counted_sampled ?env"
    by (simp_all add: counted_sampled_def emit_def)
  show ?thesis
  proof (cases "collect_limit < 0 \<or> raise_if_more_errors_than < 0")
    case True
    then show ?thesis by (auto simp: iterate_def Let_def counted_sampled_def)
  next
    case False
    show ?thesis
    proof (cases "Stream_iter produce ?stream")
      case (Inl e)
      with False cs0 show ?thesis by (simp add: iterate_def Let_def)
    next
      case (Inr it)
      obtain res it' env' out' where loop: "for_loop it ?env collect_limit [] = (res, it', env', out')"
        by (cases "for_loop it ?env collect_limit []") auto
      have "1 \<le> RUN_MAX_NUM_ERROR_SAMPLES" by (simp add: RUN_MAX_NUM_ERROR_SAMPLES_def)
      from for_loop_counted_sampled [OF Stream_iter_shape [OF Inr] this cs0(2) loop]
      have "counted_sampled env'" by simp
      then have "counted_sampled (emit entry env')" for entry
        by (simp add: counted_sampled_def emit_def)
      with False Inr loop \<open>counted_sampled env'\<close> show ?thesis
        by (cases res) (auto simp: iterate_def Let_def split: sum.splits)
    qed
  qed
qed

lemma example_outcomes_exceptions:
  "list_all (\<lambda>e. isinstance e [Exception]) (errors_of example_outcomes)"
  by (simp add: example_outcomes_def isinstance_def issubclass_def)

lemma example_nine_errors_exceptions:
  "list_all (\<lambda>e. isinstance e [Exception]) (errors_of example_nine_errors)"
  by (simp add: example_nine_errors_def isinstance_def issubclass_def)

lemma catching_next_escape:
  "uncaught_pending (ca_iterator c) = Fail e # rest \<Longrightarrow> \<not> isinstance e (ca_classes c) \<Longrightarrow>
     \<exists>up'. catching_next c env = (Raise e, c\<lparr>ca_iterator := up'\<rparr>, env)
       \<and> uncaught_pending up' = rest"
  using uncaught_next_fail [of "ca_iterator c" e rest env]
  by (subst catching_next.simps) auto

lemma for_loop_catching_escape:
  "uncaught_pending (ca_iterator c) = pre @ Fail e # post \<Longrightarrow> errors_of pre = [] \<Longrightarrow>
   \<not> isinstance e (ca_classes c) \<Longrightarrow>
     \<exists>c' env'. for_loop (Catching c) env limit out
         = (Some e, Catching c', env', collected limit out (elements_of pre))
       \<and> uncaught_pending (ca_iterator c') = post \<and> same_counts env env'"
proof (induction pre arbitrary: c env out)
  case Nil
  from catching_next_escape [of c e post env] Nil(1,3) obtain up' where
    "catching_next c env = (Raise e, c\<lparr>ca_iterator := up'\<rparr>, env)"
    "uncaught_pending up' = post" by auto
  then show ?case
    by (subst for_loop.simps) (simp add: collected_def same_counts_refl)
next
  case (Cons p pre)
  from Cons.prems(2) obtain x where p: "p = Elem x" by (cases p) auto
  from catching_next_elem [of c x "pre @ Fail e # post" env] Cons.prems(1) p obtain up1 env1 where
    n: "catching_next c env = (Yield x, c\<lparr>ca_iterator := up1\<rparr>, env1)"
    and u1: "uncaught_pending up1 = pre @ Fail e # post"
    and s1: "same_counts env env1" by auto
  let ?c = "c\<lparr>ca_iterator := up1\<rparr>"
  let ?out = "if int (length out) < limit then out @ [x] else out"
  have "uncaught_pending (ca_iterator ?c) = pre @ Fail e # post" "errors_of pre = []"
    "\<not> isinstance e (ca_classes ?c)"
    using u1 Cons.prems p by simp_all
  from Cons.IH [OF this, of env1 ?out] obtain c' env' where
    "for_loop (Catching ?c) env1 limit ?out
       = (Some e, Catching c', env', collected limit ?out (elements_of pre))"
    "uncaught_pending (ca_iterator c') = post" "same_counts env1 env'" by blast
  with n s1 p show ?case
    by (subst for_loop.simps) (auto simp: collected_step same_counts_def)
qed

lemma iterate_deferred_escape:
  assumes tr: "produce (observed_upstream self) = Inr (pre @ Fail e # post)"
    and pre: "errors_of pre = []"
    and exc: "\<not> isinstance e [Exception]"
    and limit: "0 \<le> collect_limit" and thr: "0 \<le> raise_if_more_errors_than"
  shows "map_option driver_pending (final_iterator (iterate explain produce LOGGER self
            collect_limit raise_if_more_errors_than False)) = Some post
      \<and> errors_count (final_env (iterate explain produce LOGGER self collect_limit
                  raise_if_more_errors_than False)) = 0
      \<and> error_samples (final_env (iterate explain produce LOGGER self collect_limit
                  raise_if_more_errors_than False)) = []
      \<and> outcome (iterate explain produce LOGGER self collect_limit
                  raise_if_more_errors_than False) = Inl e"
proof -
  let ?pred = "Some (register_error_sample RUN_MAX_NUM_ERROR_SAMPLES)"
  let ?stream = "Stream_catch (if \<not> isinstance_ObserveStream self
                    then Stream_observe self ''output elements'' False else self) [Exception] ?pred"
  let ?env = "emit (LogInfo [Lit (explain ?stream)])
                \<lparr>errors_count = 0, error_samples = [], logger = LOGGER\<rparr>"
  from Stream_iter_deferred [where produce = produce and self = self
      and what = "''output elements''" and classes = "[Exception]" and pred = ?pred, OF tr]
  obtain ob where it: "Stream_iter produce ?stream
        = Inr (Catching \<lparr>ca_iterator = Observing ob, ca_classes = [Exception], ca_when = ?pred\<rparr>)"
    and ob: "ob_iterator ob = pre @ Fail e # post" by blast
  let ?c = "\<lparr>ca_iterator = Observing ob, ca_classes = [Exception], ca_when = ?pred\<rparr>"
  have "uncaught_pending (ca_iterator ?c) = pre @ Fail e # post"
    "\<not> isinstance e (ca_classes ?c)"
    using ob exc by simp_all
  from for_loop_catching_escape [OF this(1) pre this(2), of ?env collect_limit "[]"]
  obtain c' env' where loop: "for_loop (Catching ?c) ?env collect_limit []
        = (Some e, Catching c', env', collected collect_limit [] (elements_of pre))"
    and rest: "uncaught_pending (ca_iterator c') = post" and same: "same_counts ?env env'"
    by blast
  have nonneg: "\<not> collect_limit < 0" "\<not> raise_if_more_errors_than < 0"
    using limit thr by simp_all
  show ?thesis
    unfolding iterate_def Let_def
    using nonneg it loop rest same
    by (auto simp: same_counts_def emit_def)
qed

text \<open>
  \<^bold>\<open>C1\<close>, as the claim states it, fails: the driver's catch is built with the class
  \<^verbatim>\<open>Exception\<close>, so an exception of another class raised during the iteration is not
  caught. With \<^verbatim>\<open>fail_fast=False\<close>, a stream that yields 1, is then interrupted from the
  keyboard and would yield 2 makes \<^verbatim>\<open>iterate\<close> raise the \<^verbatim>\<open>KeyboardInterrupt\<close> at once:
  the 2 is never pulled and nothing is counted or sampled.
\<close>

theorem iterate_catches_every_error_counterexample:
  "outcome (iterate example_explain example_interrupted_produce []
      (Stream example_iterator_factory) 5 0 False) = Inl (Exn KeyboardInterrupt [])
   \<and> map_option driver_pending (final_iterator (iterate example_explain
        example_interrupted_produce [] (Stream example_iterator_factory) 5 0 False))
     = Some [Elem (PyInt 2)]
   \<and> errors_count (final_env (iterate example_explain example_interrupted_produce []
        (Stream example_iterator_factory) 5 0 False)) = 0
   \<and> error_samples (final_env (iterate example_explain example_interrupted_produce []
        (Stream example_iterator_factory) 5 0 False)) = []"
proof -
  have p: "example_interrupted_produce (observed_upstream (Stream example_iterator_factory))
     = Inr ([Elem (PyInt 1)] @ Fail (Exn KeyboardInterrupt []) # [Elem (PyInt 2)])"
    by (simp add: example_interrupted_produce_def example_interrupted_def)
  have c: "errors_of [Elem (PyInt 1)] = []" by simp
  have k: "\<not> isinstance (Exn KeyboardInterrupt []) [Exception]"
    by (simp add: isinstance_def issubclass_def)
  have l: "(0::int) \<le> 5" and z: "(0::int) \<le> 0" by simp_all
  show ?thesis
    using iterate_deferred_escape [where produce = example_interrupted_produce
        and self = "Stream example_iterator_factory" and explain = example_explain
        and LOGGER = "[]", OF p c k l z]
    by simp
qed

text \<open>
  \<^bold>\<open>C1\<close>, amended. Let the plan that \<^verbatim>\<open>iterate\<close> observes compile to an iterator with the
  outcomes \<open>tr\<close>, whose errors are instances of \<^verbatim>\<open>Exception\<close> (the class the driver's
  catch is built with). With \<^verbatim>\<open>fail_fast=False\<close>: the predicate \<^verbatim>\<open>register_error_sample\<close>
  always returns \<^verbatim>\<open>True\<close>; the iteration goes past every error, to exhaustion; every
  error is counted; the samples are the first 8 errors, so at most 8; and after exhaustion
  \<^verbatim>\<open>iterate\<close> raises the first sampled error if the error count is strictly greater than
  \<^verbatim>\<open>raise_if_more_errors_than\<close>, and otherwise returns the collected elements (so it raises
  if and only if the count exceeds the threshold).
\<close>

theorem iterate_defers_errors:
  assumes "produce (observed_upstream self) = Inr tr"
    and "list_all (\<lambda>e. isinstance e [Exception]) (errors_of tr)"
    and "0 \<le> collect_limit" and "0 \<le> raise_if_more_errors_than"
    and "r = iterate explain produce LOGGER self collect_limit raise_if_more_errors_than False"
  shows "fst (register_error_sample RUN_MAX_NUM_ERROR_SAMPLES e env) = Inr True
    \<and> map_option driver_pending (final_iterator r) = Some []
    \<and> errors_count (final_env r) = length (errors_of tr)
    \<and> error_samples (final_env r) = take 8 (errors_of tr)
    \<and> length (error_samples (final_env r)) \<le> 8
    \<and> (raise_if_more_errors_than < int (length (errors_of tr)) \<longrightarrow>
         (\<exists>first rest. errors_of tr = first # rest
            \<and> getitem0 (error_samples (final_env r)) = Inr first \<and> outcome r = Inl first))
    \<and> (\<not> raise_if_more_errors_than < int (length (errors_of tr)) \<longrightarrow>
         outcome r = Inr (take (nat collect_limit) (elements_of tr)))"
proof -
  from iterate_deferred [where produce = produce and self = self and explain = explain
      and LOGGER = LOGGER, OF assms(1-4)] assms(5)
  obtain it where it: "final_iterator r = Some it" "driver_pending it = []"
    and count: "errors_count (final_env r) = length (errors_of tr)"
    and samples: "error_samples (final_env r) = take 8 (errors_of tr)"
    and out: "outcome r
        = (if raise_if_more_errors_than < int (length (errors_of tr))
           then (case getitem0 (errors_of tr) of Inl ie \<Rightarrow> Inl ie | Inr first \<Rightarrow> Inl first)
           else Inr (take (nat collect_limit) (elements_of tr)))"
    by blast
  have raised: "raise_if_more_errors_than < int (length (errors_of tr)) \<longrightarrow>
         (\<exists>first rest. errors_of tr = first # rest
            \<and> getitem0 (error_samples (final_env r)) = Inr first \<and> outcome r = Inl first)"
    using out samples assms(4) by (cases "errors_of tr") (auto simp: getitem0_def)
  show ?thesis
    using it count samples out raised
    by (simp add: register_error_sample_result)
qed

theorem iterate_defers_errors_witness:
  "example_nine_errors_produce (observed_upstream (Stream example_iterator_factory))
      = Inr example_nine_errors
   \<and> list_all (\<lambda>e. isinstance e [Exception]) (errors_of example_nine_errors)
   \<and> errors_count (final_env (iterate example_explain example_nine_errors_produce []
         (Stream example_iterator_factory) 5 8 False)) = 9
   \<and> error_samples (final_env (iterate example_explain example_nine_errors_produce []
         (Stream example_iterator_factory) 5 8 False))
       = [Exn (UserError ''e1'') [], Exn (UserError ''e2'') [], Exn (UserError ''e3'') [],
          Exn (UserError ''e4'') [], Exn (UserError ''e5'') [], Exn (UserError ''e6'') [],
          Exn (UserError ''e7'') [], Exn (UserError ''e8'') []]
   \<and> outcome (iterate example_explain example_nine_errors_produce []
         (Stream example_iterator_factory) 5 8 False) = Inl (Exn (UserError ''e1'') [])
   \<and> outcome (iterate example_explain example_nine_errors_produce []
         (Stream example_iterator_factory) 5 9 False) = Inr [PyInt 1, PyInt 2]"
proof -
  have p: "example_nine_errors_produce (observed_upstream (Stream example_iterator_factory))
      = Inr example_nine_errors"
    by (simp add: example_nine_errors_produce_def)
  have l: "(0::int) \<le> 5" and t8: "(0::int) \<le> 8" and t9: "(0::int) \<le> 9" by simp_all
  show ?thesis
    using p example_nine_errors_exceptions
      iterate_defers_errors [where produce = example_nine_errors_produce
        and self = "Stream example_iterator_factory" and explain = example_explain
        and LOGGER = "[]", OF p example_nine_errors_exceptions l t8 refl]
      iterate_defers_errors [where produce = example_nine_errors_produce
        and self = "Stream example_iterator_factory" and explain = example_explain
        and LOGGER = "[]", OF p example_nine_errors_exceptions l t9 refl]
    by (simp add: example_nine_errors_def)
qed

text \<open>
  \<^bold>\<open>C2\<close>. With \<^verbatim>\<open>fail_fast=True\<close> the iterator \<^verbatim>\<open>iterate\<close> pulls from has no catching
  wrapper. If the observed plan compiles to an iterator whose first error \<open>e\<close> comes after
  the elements \<open>pre\<close> and before the outcomes \<open>post\<close>, the iteration stops at \<open>e\<close>: \<open>post\<close>
  is left unpulled, \<open>e\<close> is what \<^verbatim>\<open>iterate\<close> raises, and no error is counted or sampled.
\<close>

theorem iterate_fail_fast_propagates:
  assumes "produce (observed_upstream self) = Inr (pre @ Fail e # post)"
    and "errors_of pre = []"
    and "0 \<le> collect_limit" and "0 \<le> raise_if_more_errors_than"
    and "r = iterate explain produce LOGGER self collect_limit raise_if_more_errors_than True"
  shows "(\<exists>up. final_iterator r = Some (Uncaught up) \<and> uncaught_pending up = post)
    \<and> outcome r = Inl e
    \<and> errors_count (final_env r) = 0
    \<and> error_samples (final_env r) = []"
  using iterate_fail_fast_error [where produce = produce and self = self
      and explain = explain and LOGGER = LOGGER, OF assms(1-4)] assms(5)
  by blast

theorem iterate_fail_fast_propagates_witness:
  "example_produce (observed_upstream (Stream example_iterator_factory))
     = Inr ([Elem (PyInt 10)]
            @ Fail (Exn ZeroDivisionError [Lit ''integer division or modulo by zero''])
            # [Elem (PyInt 5), Fail (Exn ValueError [Lit ''bad element'']), Elem (PyInt 3)])
   \<and> errors_of [Elem (PyInt 10)] = []
   \<and> outcome (iterate example_explain example_produce []
         (Stream example_iterator_factory) 5 0 True)
       = Inl (Exn ZeroDivisionError [Lit ''integer division or modulo by zero''])
   \<and> map_option driver_pending (final_iterator (iterate example_explain example_produce []
         (Stream example_iterator_factory) 5 0 True))
       = Some [Elem (PyInt 5), Fail (Exn ValueError [Lit ''bad element'']), Elem (PyInt 3)]
   \<and> errors_count (final_env (iterate example_explain example_produce []
         (Stream example_iterator_factory) 5 0 True)) = 0"
proof -
  have p: "example_produce (observed_upstream (Stream example_iterator_factory))
     = Inr ([Elem (PyInt 10)]
            @ Fail (Exn ZeroDivisionError [Lit ''integer division or modulo by zero''])
            # [Elem (PyInt 5), Fail (Exn ValueError [Lit ''bad element'']), Elem (PyInt 3)])"
    by (simp add: example_produce_def example_outcomes_def)
  have c: "errors_of [Elem (PyInt 10)] = []" by simp
  have l: "(0::int) \<le> 5" and t: "(0::int) \<le> 0" by simp_all
  show ?thesis
    using p c iterate_fail_fast_propagates [where produce = example_produce
        and self = "Stream example_iterator_factory" and explain = example_explain
        and LOGGER = "[]", OF p c l t refl]
    by auto
qed

text \<open>
  \<^bold>\<open>C7\<close>, as the claim states it, fails: with the default \<^verbatim>\<open>collect_limit=0\<close> (and the
  default threshold 0) a stream that raises an error makes \<^verbatim>\<open>iterate\<close> raise that error
  after the iteration instead of returning the empty list; and with \<^verbatim>\<open>fail_fast=True\<close>
  the same stream is not pulled to exhaustion.
\<close>

theorem collect_limit_zero_counterexample:
  "outcome (iterate example_explain example_produce []
      (Stream example_iterator_factory) 0 0 False)
     = Inl (Exn ZeroDivisionError [Lit ''integer division or modulo by zero''])
   \<and> map_option driver_pending (final_iterator (iterate example_explain example_produce []
       (Stream example_iterator_factory) 0 0 True))
     = Some [Elem (PyInt 5), Fail (Exn ValueError [Lit ''bad element'']), Elem (PyInt 3)]"
proof -
  have p: "example_produce (observed_upstream (Stream example_iterator_factory)) = Inr example_outcomes"
    by (simp add: example_produce_def)
  have p': "example_produce (observed_upstream (Stream example_iterator_factory))
     = Inr ([Elem (PyInt 10)]
            @ Fail (Exn ZeroDivisionError [Lit ''integer division or modulo by zero''])
            # [Elem (PyInt 5), Fail (Exn ValueError [Lit ''bad element'']), Elem (PyInt 3)])"
    by (simp add: example_produce_def example_outcomes_def)
  have c: "errors_of [Elem (PyInt 10)] = []" by simp
  have z: "(0::int) \<le> 0" by simp
  show ?thesis
    using iterate_deferred [where produce = example_produce
        and self = "Stream example_iterator_factory" and explain = example_explain
        and LOGGER = "[]", OF p example_outcomes_exceptions z z]
      iterate_fail_fast_error [where produce = example_produce
        and self = "Stream example_iterator_factory" and explain = example_explain
        and LOGGER = "[]", OF p' c z z]
    by (auto simp: example_outcomes_def getitem0_def)
qed

text \<open>
  \<^bold>\<open>C7\<close>, amended. Let the observed plan compile to an iterator with the outcomes \<open>tr\<close>,
  whose errors are instances of \<^verbatim>\<open>Exception\<close>. With \<^verbatim>\<open>fail_fast=False\<close>, whatever
  \<^verbatim>\<open>collect_limit\<close> is (0 included), \<^verbatim>\<open>iterate\<close> pulls the iterator to exhaustion and
  counts every error; whenever it returns rather than raises, that is when the error
  count does not exceed \<^verbatim>\<open>raise_if_more_errors_than\<close>, the list returned is exactly the
  first \<^verbatim>\<open>collect_limit\<close> elements yielded, the empty list for \<^verbatim>\<open>collect_limit=0\<close>. With
  \<^verbatim>\<open>fail_fast=True\<close> the same holds of a stream that raises no error: it is pulled to
  exhaustion whatever \<^verbatim>\<open>collect_limit\<close> is, no error is counted, and the first
  \<^verbatim>\<open>collect_limit\<close> elements are returned.
\<close>

theorem collect_limit_semantics:
  assumes "produce (observed_upstream self) = Inr tr"
    and "list_all (\<lambda>e. isinstance e [Exception]) (errors_of tr)"
    and "0 \<le> collect_limit" and "0 \<le> raise_if_more_errors_than"
  shows "map_option driver_pending (final_iterator
            (iterate explain produce LOGGER self collect_limit raise_if_more_errors_than False))
          = Some []
    \<and> errors_count (final_env
            (iterate explain produce LOGGER self collect_limit raise_if_more_errors_than False))
          = length (errors_of tr)
    \<and> map_option driver_pending (final_iterator
            (iterate explain produce LOGGER self 0 raise_if_more_errors_than False)) = Some []
    \<and> errors_count (final_env
            (iterate explain produce LOGGER self 0 raise_if_more_errors_than False))
          = length (errors_of tr)
    \<and> (int (length (errors_of tr)) \<le> raise_if_more_errors_than \<longrightarrow>
          outcome (iterate explain produce LOGGER self collect_limit raise_if_more_errors_than False)
            = Inr (take (nat collect_limit) (elements_of tr))
        \<and> outcome (iterate explain produce LOGGER self 0 raise_if_more_errors_than False) = Inr [])
    \<and> (errors_of tr = [] \<longrightarrow>
          outcome (iterate explain produce LOGGER self collect_limit raise_if_more_errors_than True)
            = Inr (take (nat collect_limit) (elements_of tr))
        \<and> map_option driver_pending (final_iterator
            (iterate explain produce LOGGER self collect_limit raise_if_more_errors_than True))
            = Some []
        \<and> errors_count (final_env
            (iterate explain produce LOGGER self collect_limit raise_if_more_errors_than True)) = 0
        \<and> outcome (iterate explain produce LOGGER self 0 raise_if_more_errors_than True) = Inr []
        \<and> map_option driver_pending (final_iterator
            (iterate explain produce LOGGER self 0 raise_if_more_errors_than True)) = Some []
        \<and> errors_count (final_env
            (iterate explain produce LOGGER self 0 raise_if_more_errors_than True)) = 0)"
proof -
  have z: "(0::int) \<le> 0" by simp
  have a: "errors_of tr = [] \<longrightarrow>
          outcome (iterate explain produce LOGGER self collect_limit raise_if_more_errors_than True)
            = Inr (take (nat collect_limit) (elements_of tr))
        \<and> map_option driver_pending (final_iterator
            (iterate explain produce LOGGER self collect_limit raise_if_more_errors_than True))
            = Some []
        \<and> errors_count (final_env
            (iterate explain produce LOGGER self collect_limit raise_if_more_errors_than True)) = 0
        \<and> outcome (iterate explain produce LOGGER self 0 raise_if_more_errors_than True) = Inr []
        \<and> map_option driver_pending (final_iterator
            (iterate explain produce LOGGER self 0 raise_if_more_errors_than True)) = Some []
        \<and> errors_count (final_env
            (iterate explain produce LOGGER self 0 raise_if_more_errors_than True)) = 0"
  proof
    assume clean: "errors_of tr = []"
    from iterate_fail_fast_clean [where produce = produce and self = self
        and explain = explain and LOGGER = LOGGER, OF assms(1) clean assms(3,4)]
      iterate_fail_fast_clean [where produce = produce and self = self
        and explain = explain and LOGGER = LOGGER, OF assms(1) clean z assms(4)]
    show "outcome (iterate explain produce LOGGER self collect_limit raise_if_more_errors_than True)
            = Inr (take (nat collect_limit) (elements_of tr))
        \<and> map_option driver_pending (final_iterator
            (iterate explain produce LOGGER self collect_limit raise_if_more_errors_than True))
            = Some []
        \<and> errors_count (final_env
            (iterate explain produce LOGGER self collect_limit raise_if_more_errors_than True)) = 0
        \<and> outcome (iterate explain produce LOGGER self 0 raise_if_more_errors_than True) = Inr []
        \<and> map_option driver_pending (final_iterator
            (iterate explain produce LOGGER self 0 raise_if_more_errors_than True)) = Some []
        \<and> errors_count (final_env
            (iterate explain produce LOGGER self 0 raise_if_more_errors_than True)) = 0"
      by auto
  qed
  from iterate_deferred [where produce = produce and self = self
      and explain = explain and LOGGER = LOGGER, OF assms(1,2,3,4)]
    iterate_deferred [where produce = produce and self = self
      and explain = explain and LOGGER = LOGGER, OF assms(1,2) z assms(4)] a
  show ?thesis by auto
qed

theorem collect_limit_semantics_witness:
  "example_produce (observed_upstream (Stream example_iterator_factory)) = Inr example_outcomes
   \<and> list_all (\<lambda>e. isinstance e [Exception]) (errors_of example_outcomes)
   \<and> int (length (errors_of example_outcomes)) \<le> 2
   \<and> outcome (iterate example_explain example_produce []
         (Stream example_iterator_factory) 2 2 False) = Inr [PyInt 10, PyInt 5]
   \<and> errors_count (final_env (iterate example_explain example_produce []
         (Stream example_iterator_factory) 2 2 False)) = 2
   \<and> map_option driver_pending (final_iterator (iterate example_explain example_produce []
         (Stream example_iterator_factory) 2 2 False)) = Some []
   \<and> outcome (iterate example_explain example_produce []
         (Stream example_iterator_factory) 0 2 False) = Inr []
   \<and> map_option driver_pending (final_iterator (iterate example_explain example_produce []
         (Stream example_iterator_factory) 0 2 False)) = Some []
   \<and> errors_count (final_env (iterate example_explain example_produce []
         (Stream example_iterator_factory) 0 2 False)) = 2
   \<and> errors_of [Elem (PyInt 7), Elem (PyInt 8)] = []
   \<and> outcome (iterate example_explain (\<lambda>_. Inr [Elem (PyInt 7), Elem (PyInt 8)]) []
         (Stream example_iterator_factory) 1 0 True) = Inr [PyInt 7]
   \<and> map_option driver_pending (final_iterator (iterate example_explain
         (\<lambda>_. Inr [Elem (PyInt 7), Elem (PyInt 8)]) []
         (Stream example_iterator_factory) 1 0 True)) = Some []
   \<and> errors_count (final_env (iterate example_explain
         (\<lambda>_. Inr [Elem (PyInt 7), Elem (PyInt 8)]) []
         (Stream example_iterator_factory) 1 0 True)) = 0"
proof -
  have p: "example_produce (observed_upstream (Stream example_iterator_factory)) = Inr example_outcomes"
    by (simp add: example_produce_def)
  have q: "(\<lambda>_. Inr [Elem (PyInt 7), Elem (PyInt 8)]) (observed_upstream (Stream example_iterator_factory))
      = (Inr [Elem (PyInt 7), Elem (PyInt 8)] :: exn + pyval iterator)"
    by simp
  have e: "list_all (\<lambda>e. isinstance e [Exception]) (errors_of [Elem (PyInt 7), Elem (PyInt 8 :: pyval)])"
    by simp
  have l: "(0::int) \<le> 2" and l1: "(0::int) \<le> 1" and z: "(0::int) \<le> 0" by simp_all
  show ?thesis
    using p example_outcomes_exceptions
      collect_limit_semantics [where produce = example_produce
        and self = "Stream example_iterator_factory" and explain = example_explain
        and LOGGER = "[]", OF p example_outcomes_exceptions l l]
      collect_limit_semantics [where produce = "\<lambda>_. Inr [Elem (PyInt 7), Elem (PyInt 8)]"
        and self = "Stream example_iterator_factory" and explain = example_explain
        and LOGGER = "[]", OF q e l1 z]
    by (simp add: example_outcomes_def)
qed

text \<open>
  \<^bold>\<open>C9\<close>. Whatever the plan, the parameters and the outcomes of the iteration: if
  \<^verbatim>\<open>iterate\<close> ends with \<^verbatim>\<open>errors_count > 0\<close>, then \<^verbatim>\<open>error_samples\<close> is not empty and
  \<^verbatim>\<open>error_samples[0]\<close> evaluates to an element of it instead of raising \<^verbatim>\<open>IndexError\<close>
  (the capacity \<^verbatim>\<open>_RUN_MAX_NUM_ERROR_SAMPLES\<close> is at least 1, so the first error counted
  is appended).
\<close>

theorem first_error_sample_exists:
  assumes "0 < errors_count (final_env (iterate explain produce LOGGER self collect_limit
      raise_if_more_errors_than fail_fast))"
  shows "1 \<le> RUN_MAX_NUM_ERROR_SAMPLES
    \<and> error_samples (final_env (iterate explain produce LOGGER self collect_limit
        raise_if_more_errors_than fail_fast)) \<noteq> []
    \<and> (\<exists>first. getitem0 (error_samples (final_env (iterate explain produce LOGGER self
        collect_limit raise_if_more_errors_than fail_fast))) = Inr first)"
  using assms iterate_counted_sampled [of explain produce LOGGER self collect_limit
      raise_if_more_errors_than fail_fast]
  by (auto simp: counted_sampled_def getitem0_def RUN_MAX_NUM_ERROR_SAMPLES_def split: list.splits)

theorem first_error_sample_exists_witness:
  "0 < errors_count (final_env (iterate example_explain example_produce []
        (Stream example_iterator_factory) 2 1 False))
   \<and> error_samples (final_env (iterate example_explain example_produce []
        (Stream example_iterator_factory) 2 1 False)) \<noteq> []
   \<and> (\<exists>first. getitem0 (error_samples (final_env (iterate example_explain example_produce []
        (Stream example_iterator_factory) 2 1 False))) = Inr first)"
proof -
  have p: "example_produce (observed_upstream (Stream example_iterator_factory)) = Inr example_outcomes"
    by (simp add: example_produce_def)
  have l: "(0::int) \<le> 2" and t1: "(0::int) \<le> 1" by simp_all
  from iterate_deferred [where produce = example_produce
      and self = "Stream example_iterator_factory" and explain = example_explain
      and LOGGER = "[]", OF p example_outcomes_exceptions l t1]
  have h: "0 < errors_count (final_env (iterate example_explain example_produce []
        (Stream example_iterator_factory) 2 1 False))"
    by (auto simp: example_outcomes_def)
  show ?thesis
    using h first_error_sample_exists [OF h] by simp
qed

end
